theory Spec2Isabelle
  imports Main
begin

section \<open>JavaScript regular expressions (the fragment the build plugins use)\<close>

text \<open>
  Chunk text is a list of 8-bit code units. A regular expression is data; \<open>matches\<close> is the
  backtracking matcher of ECMAScript for this fragment: it returns every way the expression
  can match a prefix of the input, in the order a backtracking engine tries them (greedy
  quantifiers first take as much as they can), each with the remaining input and the
  capture groups. The engine's answer is the head of that list.
\<close>

datatype regex =
    Lit string
  | Class "char \<Rightarrow> bool"
  | Seq regex regex
  | Alt regex regex
  | Star regex
  | Plus regex
  | Group nat regex
  | Backref nat

type_synonym captures = "nat \<rightharpoonup> string"
type_synonym mstate = "string \<times> captures"

fun rweight :: "regex \<Rightarrow> nat" where
  "rweight (Lit l) = 1"
| "rweight (Class P) = 1"
| "rweight (Seq a b) = Suc (rweight a + rweight b)"
| "rweight (Alt a b) = Suc (rweight a + rweight b)"
| "rweight (Star r) = Suc (rweight r)"
| "rweight (Plus r) = Suc (Suc (rweight r))"
| "rweight (Group n r) = Suc (rweight r)"
| "rweight (Backref n) = 1"

definition strip_prefix :: "string \<Rightarrow> string \<Rightarrow> string option" where
  "strip_prefix l s = (if take (length l) s = l then Some (drop (length l) s) else None)"

definition capture :: "nat \<Rightarrow> string \<Rightarrow> mstate \<Rightarrow> mstate" where
  "capture n s st' = (fst st', (snd st')(n \<mapsto> take (length s - length (fst st')) s))"

function matches :: "regex \<Rightarrow> mstate \<Rightarrow> mstate list" where
  "matches (Lit l) st =
     (case strip_prefix l (fst st) of None \<Rightarrow> [] | Some s' \<Rightarrow> [(s', snd st)])"
| "matches (Class P) st =
     (case fst st of [] \<Rightarrow> [] | x # t \<Rightarrow> if P x then [(t, snd st)] else [])"
| "matches (Seq a b) st = concat (map (matches b) (matches a st))"
| "matches (Alt a b) st = matches a st @ matches b st"
| "matches (Star r) st =
     concat (map (\<lambda>st'. if length (fst st') < length (fst st) then matches (Star r) st' else [])
                 (matches r st)) @ [st]"
| "matches (Plus r) st = concat (map (matches (Star r)) (matches r st))"
| "matches (Group n r) st = map (capture n (fst st)) (matches r st)"
| "matches (Backref n) st =
     (case snd st n of
        None \<Rightarrow> [st]
      | Some l \<Rightarrow> (case strip_prefix l (fst st) of None \<Rightarrow> [] | Some s' \<Rightarrow> [(s', snd st)]))"
  by pat_completeness auto
termination
  by (relation "inv_image (less_than <*lex*> less_than) (\<lambda>(r, st). (rweight r, length (fst st)))")
     auto

declare matches.simps [simp del]

definition first_match :: "regex \<Rightarrow> string \<Rightarrow> mstate option" where
  "first_match r s = (case matches r (s, Map.empty) of [] \<Rightarrow> None | st # _ \<Rightarrow> Some st)"

text \<open>
  \<open>String.prototype.replace\<close> with a global expression and a callback: scan from the left;
  at a match emit the callback's text and continue behind the match (one position further
  after an empty match); elsewhere copy one code unit.
\<close>

function replace_all :: "regex \<Rightarrow> (captures \<Rightarrow> string) \<Rightarrow> string \<Rightarrow> string" where
  "replace_all r f s =
     (case first_match r s of
        Some st \<Rightarrow>
          (if length (fst st) < length s then f (snd st) @ replace_all r f (fst st)
           else f (snd st) @ (case s of [] \<Rightarrow> [] | x # t \<Rightarrow> x # replace_all r f t))
      | None \<Rightarrow> (case s of [] \<Rightarrow> [] | x # t \<Rightarrow> x # replace_all r f t))"
  by pat_completeness auto
termination
  by (relation "measure (\<lambda>(r, f, s). length s)") auto

declare replace_all.simps [simp del]

text \<open>How often the callback of the same scan is invoked (the plugins count it).\<close>

function count_matches :: "regex \<Rightarrow> string \<Rightarrow> nat" where
  "count_matches r s =
     (case first_match r s of
        Some st \<Rightarrow>
          (if length (fst st) < length s then Suc (count_matches r (fst st))
           else Suc (case s of [] \<Rightarrow> 0 | x # t \<Rightarrow> count_matches r t))
      | None \<Rightarrow> (case s of [] \<Rightarrow> 0 | x # t \<Rightarrow> count_matches r t))"
  by pat_completeness auto
termination
  by (relation "measure (\<lambda>(r, s). length s)") auto

declare count_matches.simps [simp del]

text \<open>\<open>RegExp.prototype.test\<close> of a fresh expression: is there a match at some position.\<close>

fun regex_test :: "regex \<Rightarrow> string \<Rightarrow> bool" where
  "regex_test r [] = (first_match r [] \<noteq> None)"
| "regex_test r (x # t) = (first_match r (x # t) \<noteq> None \<or> regex_test r t)"

text \<open>\<open>String.prototype.includes\<close>.\<close>

fun str_includes :: "string \<Rightarrow> string \<Rightarrow> bool" where
  "str_includes [] sub = (sub = [])"
| "str_includes (x # t) sub = (take (length sub) (x # t) = sub \<or> str_includes t sub)"

text \<open>\<open>Array.prototype.join\<close>.\<close>

fun join :: "string \<Rightarrow> string list \<Rightarrow> string" where
  "join sep [] = []"
| "join sep [x] = x"
| "join sep (x # y # ys) = x @ sep @ join sep (y # ys)"

fun seqs :: "regex list \<Rightarrow> regex" where
  "seqs [] = Lit []"
| "seqs [r] = r"
| "seqs (r # rs) = Seq r (seqs rs)"

definition squote :: char where "squote = CHR 0x27"
definition dquote :: char where "dquote = CHR 0x22"

text \<open>\<open>\s\<close> on code units below 256: tab, LF, VT, FF, CR, space, no-break space.\<close>

definition is_space :: "char \<Rightarrow> bool" where
  "is_space c = (c \<in> set [CHR 0x09, CHR 0x0A, CHR 0x0B, CHR 0x0C, CHR 0x0D, CHR 0x20, CHR 0xA0])"

definition is_quote :: "char \<Rightarrow> bool" where
  "is_quote c = (c = squote \<or> c = dquote)"

definition not_quote :: "char \<Rightarrow> bool" where
  "not_quote c = (c \<noteq> squote \<and> c \<noteq> dquote)"

definition not_rparen :: "char \<Rightarrow> bool" where
  "not_rparen c = (c \<noteq> CHR '')'')"

text \<open>A callback argument for a group; a group that took no part reads \<open>undefined\<close>.\<close>

definition group_text :: "captures \<Rightarrow> nat \<Rightarrow> string" where
  "group_text c n = (case c n of Some v \<Rightarrow> v | None \<Rightarrow> ''undefined'')"

section \<open>The build plugins of vite.config.ts\<close>

text \<open>The template literal \<open>import(${quote}/pkg/${path}${quote})\<close> every callback returns.\<close>

definition absolute_import :: "string \<Rightarrow> string \<Rightarrow> string" where
  "absolute_import quote path = ''import('' @ quote @ ''/pkg/'' @ path @ quote @ '')''"

text \<open>A hook that returns \<open>null\<close> leaves the chunk as it is.\<close>

definition apply_hook :: "(string \<Rightarrow> string option) \<Rightarrow> string \<Rightarrow> string" where
  "apply_hook hook code = (case hook code of None \<Rightarrow> code | Some code' \<Rightarrow> code')"

subsection \<open>rewriteWasmImports\<close>

text \<open>\<^verbatim>\<open>/import\s*\((['"])(\.\.\/)+pkg\/([^'"]+)\1\)/g\<close>\<close>

definition rel_pattern1 :: regex where
  "rel_pattern1 = seqs [Lit ''import'', Star (Class is_space), Lit ''('', Group 1 (Class is_quote),
     Plus (Group 2 (Lit ''../'')), Lit ''pkg/'', Group 3 (Plus (Class not_quote)), Backref 1, Lit '')'']"

text \<open>\<^verbatim>\<open>/import\s*\((['"])\.\.\/pkg\/([^'"]+)\1\)/g\<close>\<close>

definition rel_pattern2 :: regex where
  "rel_pattern2 = seqs [Lit ''import'', Star (Class is_space), Lit ''('', Group 1 (Class is_quote),
     Lit ''../pkg/'', Group 2 (Plus (Class not_quote)), Backref 1, Lit '')'']"

definition rel_callback1 :: "captures \<Rightarrow> string" where
  "rel_callback1 c = absolute_import (group_text c 1) (group_text c 3)"

definition rel_callback2 :: "captures \<Rightarrow> string" where
  "rel_callback2 c = absolute_import (group_text c 1) (group_text c 2)"

definition rewriteWasmImports_renderChunk :: "string \<Rightarrow> string option" where
  "rewriteWasmImports_renderChunk code =
     (let modifiedCode = replace_all rel_pattern1 rel_callback1 code;
          modifiedCode = replace_all rel_pattern2 rel_callback2 modifiedCode
      in if modifiedCode \<noteq> code then Some modifiedCode else None)"

subsection \<open>removeVitePreload\<close>

text \<open>\<^verbatim>\<open>/__vitePreload\s*\(\s*\(\)\s*=>\s*import\s*\((['"])\/pkg\/([^'"]+)\1\)\s*,\s*\[\]\s*\)/g\<close>\<close>

definition pre_pattern1 :: regex where
  "pre_pattern1 = seqs [Lit ''__vitePreload'', Star (Class is_space), Lit ''('',
     Star (Class is_space), Lit ''()'', Star (Class is_space), Lit ''=>'', Star (Class is_space),
     Lit ''import'', Star (Class is_space), Lit ''('', Group 1 (Class is_quote), Lit ''/pkg/'',
     Group 2 (Plus (Class not_quote)), Backref 1, Lit '')'', Star (Class is_space), Lit '','',
     Star (Class is_space), Lit ''[]'', Star (Class is_space), Lit '')'']"

text \<open>\<^verbatim>\<open>/__vitePreload\s*\(\s*\(\)\s*=>\s*import\s*\((['"])\/pkg\/([^'"]+)\1\)\s*,\s*[^)]+\)/g\<close>\<close>

definition pre_pattern2 :: regex where
  "pre_pattern2 = seqs [Lit ''__vitePreload'', Star (Class is_space), Lit ''('',
     Star (Class is_space), Lit ''()'', Star (Class is_space), Lit ''=>'', Star (Class is_space),
     Lit ''import'', Star (Class is_space), Lit ''('', Group 1 (Class is_quote), Lit ''/pkg/'',
     Group 2 (Plus (Class not_quote)), Backref 1, Lit '')'', Star (Class is_space), Lit '','',
     Star (Class is_space), Plus (Class not_rparen), Lit '')'']"

definition pre_callback :: "captures \<Rightarrow> string" where
  "pre_callback c = absolute_import (group_text c 1) (group_text c 2)"

definition removeVitePreload_renderChunk :: "string \<Rightarrow> string option" where
  "removeVitePreload_renderChunk code =
     (if \<not> str_includes code ''/pkg/'' then None
      else let hasVitePreload = str_includes code ''__vitePreload'' \<and> str_includes code ''/pkg/'' in
      if \<not> hasVitePreload then None
      else let modifiedCode1 = replace_all pre_pattern1 pre_callback code;
               totalReplacements1 = count_matches pre_pattern1 code;
               modifiedCode = replace_all pre_pattern2 pre_callback modifiedCode1;
               totalReplacements = totalReplacements1 + count_matches pre_pattern2 modifiedCode1
      in if totalReplacements = 0 then None
         else if modifiedCode \<noteq> code then Some modifiedCode else None)"

text \<open>
  The chunk after both \<open>renderChunk\<close> hooks: \<open>removeVitePreload\<close> is registered with
  \<open>enforce: 'post'\<close>, so it runs behind \<open>rewriteWasmImports\<close>.
\<close>

definition renderChunk_pipeline :: "string \<Rightarrow> string" where
  "renderChunk_pipeline code =
     apply_hook removeVitePreload_renderChunk (apply_hook rewriteWasmImports_renderChunk code)"

subsection \<open>validateWasmModuleExports\<close>

definition expectedExports :: "(string \<times> string list) list" where
  "expectedExports =
    [(''wasm_agent_tools'', [''calculate'', ''process_text'', ''get_stats'']),
     (''wasm_preprocess_image_captioning'',
        [''preprocess_image'', ''preprocess_image_crop'', ''apply_contrast'',
         ''apply_cinematic_filter'', ''get_preprocess_stats'', ''set_contrast'', ''set_cinematic'',
         ''get_contrast'', ''get_cinematic'', ''apply_sepia_filter'', ''set_sepia'']),
     (''wasm_preprocess'',
        [''preprocess_image'', ''preprocess_image_crop'', ''preprocess_image_for_smolvlm'',
         ''apply_contrast'', ''apply_cinematic_filter'', ''get_preprocess_stats'', ''set_contrast'',
         ''set_cinematic'', ''get_contrast'', ''get_cinematic'']),
     (''wasm_preprocess_256m'',
        [''preprocess_image'', ''preprocess_image_crop'', ''apply_contrast'',
         ''apply_cinematic_filter'', ''get_preprocess_stats'', ''set_contrast'', ''set_cinematic'',
         ''get_contrast'', ''get_cinematic'']),
     (''wasm_astar'', [''wasm_init'', ''tick'', ''key_down'', ''key_up'', ''mouse_move''])]"

text \<open>
  \<open>expectedExports[moduleName]\<close> reads a property of an object literal: an own property, or
  else one inherited from \<open>Object.prototype\<close> (a function, or for \<open>__proto__\<close> the prototype
  object itself: truthy and not iterable), or else \<open>undefined\<close>.
\<close>

definition object_prototype_keys :: "string list" where
  "object_prototype_keys =
    [''constructor'', ''__defineGetter__'', ''__defineSetter__'', ''hasOwnProperty'',
     ''__lookupGetter__'', ''__lookupSetter__'', ''isPrototypeOf'', ''propertyIsEnumerable'',
     ''toString'', ''valueOf'', ''__proto__'', ''toLocaleString'']"

datatype 'a property_lookup = OwnProperty 'a | InheritedProperty | UndefinedProperty

definition lookup_property :: "(string \<times> 'a) list \<Rightarrow> string \<Rightarrow> 'a property_lookup" where
  "lookup_property obj key =
     (case map_of obj key of
        Some v \<Rightarrow> OwnProperty v
      | None \<Rightarrow> if key \<in> set object_prototype_keys then InheritedProperty else UndefinedProperty)"

text \<open>
  \<^verbatim>\<open>new RegExp(`export\\s+(function|const|let|var)\\s+${exportName}\\s*[=(]`, 'g')\<close>; the
  export names of the table are words, so the interpolated name is a literal.
\<close>

definition export_pattern :: "string \<Rightarrow> regex" where
  "export_pattern exportName = seqs [Lit ''export'', Plus (Class is_space),
     Group 1 (Alt (Lit ''function'') (Alt (Lit ''const'') (Alt (Lit ''let'') (Lit ''var'')))),
     Plus (Class is_space), Lit exportName, Star (Class is_space),
     Class (\<lambda>c. c = CHR ''='' \<or> c = CHR ''('')]"

datatype build_error = Error string | TypeError string

text \<open>The \<open>for ... of\<close> loop; \<open>missingExports\<close> is the array it pushes onto.\<close>

fun collect_missing :: "string \<Rightarrow> string list \<Rightarrow> string list \<Rightarrow> string list" where
  "collect_missing content [] missingExports = missingExports"
| "collect_missing content (exportName # rest) missingExports =
     collect_missing content rest
       (if \<not> regex_test (export_pattern exportName) content
        then missingExports @ [exportName] else missingExports)"

text \<open>\<open>content\<close> is what \<open>readFileSync(filePath)\<close> returned.\<close>

definition validateWasmModuleExports :: "string \<Rightarrow> string \<Rightarrow> string \<Rightarrow> build_error + unit" where
  "validateWasmModuleExports content filePath moduleName =
     (case lookup_property expectedExports moduleName of
        UndefinedProperty \<Rightarrow> Inr ()
      | InheritedProperty \<Rightarrow> Inl (TypeError ''expected is not iterable'')
      | OwnProperty expected \<Rightarrow>
          (let missingExports = collect_missing content expected []
           in if length missingExports > 0
              then Inl (Error (''Module '' @ moduleName @ '' is missing required exports: '' @
                          join '', '' missingExports @ ''. '' @ ''File: '' @ filePath))
              else Inr ()))"

section \<open>The hello-wasm route (src/routes/hello-wasm.ts)\<close>

subsection \<open>Run-time values\<close>

text \<open>
  The values the loader inspects: only \<open>typeof\<close>, truthiness, \<open>instanceof WebAssembly.Memory\<close>
  and own data properties are read. A function and a memory are named by a number (their
  identity); an object lists its own enumerable data properties in key order.
\<close>

datatype jsvalue =
    JSUndefined
  | JSNull
  | JSBoolean bool
  | JSNumber int
  | JSString string
  | JSFunction nat
  | JSMemory nat
  | JSObject "(string \<times> jsvalue) list"

fun typeof :: "jsvalue \<Rightarrow> string" where
  "typeof JSUndefined = ''undefined''"
| "typeof JSNull = ''object''"
| "typeof (JSBoolean b) = ''boolean''"
| "typeof (JSNumber n) = ''number''"
| "typeof (JSString s) = ''string''"
| "typeof (JSFunction f) = ''function''"
| "typeof (JSMemory m) = ''object''"
| "typeof (JSObject ps) = ''object''"

fun truthy :: "jsvalue \<Rightarrow> bool" where
  "truthy JSUndefined = False"
| "truthy JSNull = False"
| "truthy (JSBoolean b) = b"
| "truthy (JSNumber n) = (n \<noteq> 0)"
| "truthy (JSString s) = (s \<noteq> [])"
| "truthy (JSFunction f) = True"
| "truthy (JSMemory m) = True"
| "truthy (JSObject ps) = True"

fun instanceof_Memory :: "jsvalue \<Rightarrow> bool" where
  "instanceof_Memory (JSMemory m) = True"
| "instanceof_Memory v = False"

fun own_properties :: "jsvalue \<Rightarrow> (string \<times> jsvalue) list" where
  "own_properties (JSObject ps) = ps"
| "own_properties v = []"

text \<open>\<open>key in obj\<close>, for the keys the loader asks for (none is on \<open>Object.prototype\<close>).\<close>

definition has_property :: "string \<Rightarrow> jsvalue \<Rightarrow> bool" where
  "has_property key obj = (map_of (own_properties obj) key \<noteq> None)"

text \<open>\<open>obj.key\<close> and \<open>Object.getOwnPropertyDescriptor(obj, key)?.value\<close> of a data property.\<close>

definition get_property :: "jsvalue \<Rightarrow> string \<Rightarrow> jsvalue" where
  "get_property obj key = (case map_of (own_properties obj) key of Some v \<Rightarrow> v | None \<Rightarrow> JSUndefined)"

definition object_keys :: "jsvalue \<Rightarrow> string list" where
  "object_keys obj = map fst (own_properties obj)"

subsection \<open>Module state\<close>

text \<open>The module variable \<open>wasmModuleExports\<close>: \<open>null\<close> or the twelve cached members.\<close>

record module_exports =
  default_fn :: jsvalue
  wasm_init :: jsvalue
  get_counter :: jsvalue
  increment_counter :: jsvalue
  get_message :: jsvalue
  set_message :: jsvalue
  get_fave_car :: jsvalue
  set_fave_car :: jsvalue
  get_fave_team :: jsvalue
  set_fave_team :: jsvalue
  get_decimal :: jsvalue
  set_decimal :: jsvalue

text \<open>
  What a run does to the outside is logged: an evaluation of the dynamic
  \<open>import('../../pkg/wasm_hello/wasm_hello.js')\<close>, a pass through the export checks of
  \<open>getInitWasm\<close> (lines 57-192), an invocation of a function object.
\<close>

datatype event = ImportEv | ChecksEv | CallEv nat

record loader_state =
  wasmModuleExports :: "module_exports option"
  trace :: "event list"

text \<open>
  The environment: what the dynamic import settles to (a rejection reason or the module
  namespace object), and what invoking function \<open>f\<close> does after the events so far (it throws
  or returns).
\<close>

record world =
  import_result :: "string + jsvalue"
  invoke :: "nat \<Rightarrow> event list \<Rightarrow> string + jsvalue"

datatype 'a outcome = Returned 'a | Thrown string

subsection \<open>getInitWasm\<close>

definition required_exports :: "string list" where
  "required_exports = [''default'', ''wasm_init'', ''get_counter'', ''increment_counter'',
     ''get_message'', ''set_message'', ''get_fave_car'', ''set_fave_car'', ''get_fave_team'',
     ''set_fave_team'', ''get_decimal'', ''set_decimal'']"

text \<open>
  Lines 105-140: the twelve checks \<open>!('k' in m) || typeof m.k !== 'function'\<close>, in order; the
  first that fails throws.
\<close>

fun first_missing_export :: "jsvalue \<Rightarrow> string list \<Rightarrow> string option" where
  "first_missing_export m [] = None"
| "first_missing_export m (k # ks) =
     (if \<not> has_property k m \<or> typeof (get_property m k) \<noteq> ''function'' then Some k
      else first_missing_export m ks)"

text \<open>Lines 157-192: the twelve checks \<open>typeof kFunc !== 'function'\<close> on the extracted members.\<close>

fun first_non_function :: "jsvalue \<Rightarrow> string list \<Rightarrow> string option" where
  "first_non_function m [] = None"
| "first_non_function m (k # ks) =
     (if typeof (get_property m k) \<noteq> ''function'' then Some k else first_non_function m ks)"

definition extract_exports :: "jsvalue \<Rightarrow> module_exports" where
  "extract_exports m =
     \<lparr> default_fn = get_property m ''default'',
       wasm_init = get_property m ''wasm_init'',
       get_counter = get_property m ''get_counter'',
       increment_counter = get_property m ''increment_counter'',
       get_message = get_property m ''get_message'',
       set_message = get_property m ''set_message'',
       get_fave_car = get_property m ''get_fave_car'',
       set_fave_car = get_property m ''set_fave_car'',
       get_fave_team = get_property m ''get_fave_team'',
       set_fave_team = get_property m ''set_fave_team'',
       get_decimal = get_property m ''get_decimal'',
       set_decimal = get_property m ''set_decimal'' \<rparr>"

text \<open>Lines 223-227: the end of every call, cached or not.\<close>

definition getInitWasm_finish :: "world \<Rightarrow> loader_state \<Rightarrow> jsvalue outcome \<times> loader_state" where
  "getInitWasm_finish w s =
     (case wasmModuleExports s of
        None \<Rightarrow> (Thrown ''Failed to load WASM module exports'', s)
      | Some exports \<Rightarrow>
          (case default_fn exports of
             JSFunction f \<Rightarrow>
               (case invoke w f (trace s) of
                  Inl e \<Rightarrow> (Thrown e, s\<lparr>trace := trace s @ [CallEv f]\<rparr>)
                | Inr result \<Rightarrow> (Returned result, s\<lparr>trace := trace s @ [CallEv f]\<rparr>))
           | _ \<Rightarrow> (Thrown ''TypeError: wasmModuleExports.default is not a function'', s)))"

text \<open>
  An \<open>async\<close> function runs to its first \<open>await\<close>, and from there when the awaited promise
  has settled. \<open>getInitWasm\<close> has one \<open>await\<close>, on the dynamic import, inside the test of
  the cache.
\<close>

datatype started = AwaitingImport | Settled "jsvalue outcome"

definition getInitWasm_start :: "world \<Rightarrow> loader_state \<Rightarrow> started \<times> loader_state" where
  "getInitWasm_start w s =
     (if wasmModuleExports s = None
      then (AwaitingImport, s\<lparr>trace := trace s @ [ImportEv]\<rparr>)
      else (case getInitWasm_finish w s of (r, s') \<Rightarrow> (Settled r, s')))"

definition getInitWasm_resume :: "world \<Rightarrow> loader_state \<Rightarrow> jsvalue outcome \<times> loader_state" where
  "getInitWasm_resume w s =
     (case import_result w of
        Inl reason \<Rightarrow> (Thrown reason, s)
      | Inr moduleUnknown \<Rightarrow>
          if typeof moduleUnknown \<noteq> ''object'' \<or> moduleUnknown = JSNull
          then (Thrown ''Imported module is not an object'', s)
          else
            (let s1 = s\<lparr>trace := trace s @ [ChecksEv]\<rparr>;
                 allKeys = object_keys moduleUnknown
             in case first_missing_export moduleUnknown required_exports of
                  Some k \<Rightarrow>
                    (Thrown (''Module missing '' @ [squote] @ k @ [squote] @ '' export. Available: '' @
                             join '', '' allKeys), s1)
                | None \<Rightarrow>
                    (case first_non_function moduleUnknown required_exports of
                       Some k \<Rightarrow> (Thrown (k @ '' export is not a function''), s1)
                     | None \<Rightarrow>
                         getInitWasm_finish w
                           (s1\<lparr>wasmModuleExports := Some (extract_exports moduleUnknown)\<rparr>))))"

text \<open>A call that nothing interleaves with.\<close>

definition getInitWasm :: "world \<Rightarrow> loader_state \<Rightarrow> jsvalue outcome \<times> loader_state" where
  "getInitWasm w s =
     (case getInitWasm_start w s of
        (Settled r, s') \<Rightarrow> (r, s')
      | (AwaitingImport, s') \<Rightarrow> getInitWasm_resume w s')"





definition imports_run :: "loader_state \<Rightarrow> nat" where
  "imports_run s = length (filter (\<lambda>e. e = ImportEv) (trace s))"

definition checks_run :: "loader_state \<Rightarrow> nat" where
  "checks_run s = length (filter (\<lambda>e. e = ChecksEv) (trace s))"

definition calls_of :: "nat \<Rightarrow> loader_state \<Rightarrow> nat" where
  "calls_of f s = length (filter (\<lambda>e. e = CallEv f) (trace s))"

subsection \<open>validateHelloModule\<close>

record WasmModuleHello =
  memory :: jsvalue
  hello_wasm_init :: jsvalue
  hello_get_counter :: jsvalue
  hello_increment_counter :: jsvalue
  hello_get_message :: jsvalue
  hello_set_message :: jsvalue
  hello_get_fave_car :: jsvalue
  hello_set_fave_car :: jsvalue
  hello_get_fave_team :: jsvalue
  hello_set_fave_team :: jsvalue
  hello_get_decimal :: jsvalue
  hello_set_decimal :: jsvalue

text \<open>Lines 284-316: one \<open>if (typeof wasmModuleExports.k !== 'function') push\<close> per member.\<close>

definition function_members :: "(string \<times> (module_exports \<Rightarrow> jsvalue)) list" where
  "function_members =
     [(''wasm_init'', wasm_init), (''get_counter'', get_counter),
      (''increment_counter'', increment_counter), (''get_message'', get_message),
      (''set_message'', set_message), (''get_fave_car'', get_fave_car),
      (''set_fave_car'', set_fave_car), (''get_fave_team'', get_fave_team),
      (''set_fave_team'', set_fave_team), (''get_decimal'', get_decimal),
      (''set_decimal'', set_decimal)]"

fun push_non_functions ::
  "module_exports \<Rightarrow> (string \<times> (module_exports \<Rightarrow> jsvalue)) list \<Rightarrow> string list \<Rightarrow> string list" where
  "push_non_functions exports [] missingExports = missingExports"
| "push_non_functions exports ((k, member) # rest) missingExports =
     push_non_functions exports rest
       (if typeof (member exports) \<noteq> ''function''
        then missingExports @ [k @ '' (function)''] else missingExports)"

text \<open>Lines 271-317: the array \<open>missingExports\<close> when the \<open>if\<close> of line 319 reads it.\<close>

definition missing_exports :: "module_exports option \<Rightarrow> jsvalue \<Rightarrow> string list" where
  "missing_exports cache exports =
     (let memoryValue = get_property exports ''memory'';
          missingExports = (if \<not> truthy memoryValue \<or> \<not> instanceof_Memory memoryValue
                            then [''memory (WebAssembly.Memory)''] else [])
      in case cache of
           None \<Rightarrow> missingExports @ [''module exports (wasmModuleExports is null)'']
         | Some c \<Rightarrow> push_non_functions c function_members missingExports)"

definition missing_message :: "string list \<Rightarrow> string list \<Rightarrow> string" where
  "missing_message missingExports exportKeys =
     ''WASM module missing required exports: '' @ join '', '' missingExports @
     ''. Available exports from init result: '' @ join '', '' exportKeys"

text \<open>
  \<open>validateWasmModule\<close> is imported from \<open>../wasm/loader\<close>, a file that is not among the
  sources: the model takes it as the parameter \<open>validateWasmModule\<close>. The function reads the
  module variable \<open>wasmModuleExports\<close> and its argument, and assigns to neither.
\<close>

definition validateHelloModule ::
  "(jsvalue \<Rightarrow> bool) \<Rightarrow> loader_state \<Rightarrow> jsvalue \<Rightarrow> WasmModuleHello option outcome" where
  "validateHelloModule validateWasmModule s exports =
     (if \<not> validateWasmModule exports then Returned None
      else if typeof exports \<noteq> ''object'' \<or> exports = JSNull then Returned None
      else
        (let exportKeys = object_keys exports;
             memoryValue = get_property exports ''memory'';
             missingExports = missing_exports (wasmModuleExports s) exports
         in if length missingExports > 0
            then Thrown (missing_message missingExports exportKeys)
            else if \<not> instanceof_Memory memoryValue then Returned None
            else (case wasmModuleExports s of
                    None \<Rightarrow> Returned None
                  | Some c \<Rightarrow>
                      Returned (Some \<lparr> memory = memoryValue,
                        hello_wasm_init = wasm_init c,
                        hello_get_counter = get_counter c,
                        hello_increment_counter = increment_counter c,
                        hello_get_message = get_message c,
                        hello_set_message = set_message c,
                        hello_get_fave_car = get_fave_car c,
                        hello_set_fave_car = set_fave_car c,
                        hello_get_fave_team = get_fave_team c,
                        hello_set_fave_team = set_fave_team c,
                        hello_get_decimal = get_decimal c,
                        hello_set_decimal = set_decimal c \<rparr>))))"

section \<open>Auxiliary functions of the proofs\<close>

text \<open>
  Stage-by-stage readers of the plugin patterns, proved equal to the backtracking matcher on
  those patterns below; the theorems about the plugins are derived through them.
\<close>

function drop_reps :: "string \<Rightarrow> string \<Rightarrow> string" where
  "drop_reps l s = (if l \<noteq> [] \<and> take (length l) s = l then drop_reps l (drop (length l) s) else s)"
  by pat_completeness auto
termination
proof (relation "measure (\<lambda>(l, s). length s)")
  show "wf (measure (\<lambda>(l, s). length s))" by simp
next
  fix l s :: string
  assume a: "l \<noteq> [] \<and> take (length l) s = l"
  then have "length l \<le> length s"
    by (metis length_take min.cobounded1 min.commute)
  with a have "length (drop (length l) s) < length s" by (cases l) auto
  then show "((l, drop (length l) s), l, s) \<in> measure (\<lambda>(l, s). length s)" by simp
qed

declare drop_reps.simps [simp del]

definition st_close :: "char \<Rightarrow> string \<Rightarrow> string option" where
  "st_close q s = (case strip_prefix [q] s of None \<Rightarrow> None | Some s' \<Rightarrow> strip_prefix '')'' s')"

definition st_path :: "char \<Rightarrow> string \<Rightarrow> (string \<times> string) option" where
  "st_path q s =
     (case s of [] \<Rightarrow> None
      | x # t \<Rightarrow> if not_quote x
                 then map_option (Pair (takeWhile not_quote s)) (st_close q (dropWhile not_quote s))
                 else None)"

definition st_pkg :: "char \<Rightarrow> string \<Rightarrow> (string \<times> string) option" where
  "st_pkg q s = (case strip_prefix ''pkg/'' s of None \<Rightarrow> None | Some s' \<Rightarrow> st_path q s')"

definition st_dots :: "char \<Rightarrow> string \<Rightarrow> (string \<times> string) option" where
  "st_dots q s =
     (case strip_prefix ''../'' s of None \<Rightarrow> None | Some s' \<Rightarrow> st_pkg q (drop_reps ''../'' s'))"

definition st_quote :: "string \<Rightarrow> (char \<times> string \<times> string) option" where
  "st_quote s =
     (case s of [] \<Rightarrow> None
      | q # t \<Rightarrow> if is_quote q then map_option (Pair q) (st_dots q t) else None)"

definition st_paren :: "string \<Rightarrow> (char \<times> string \<times> string) option" where
  "st_paren s =
     (case strip_prefix ''('' (dropWhile is_space s) of None \<Rightarrow> None | Some s' \<Rightarrow> st_quote s')"

definition rel1_parse :: "string \<Rightarrow> (char \<times> string \<times> string) option" where
  "rel1_parse s = (case strip_prefix ''import'' s of None \<Rightarrow> None | Some s' \<Rightarrow> st_paren s')"

definition rw1 :: "string \<Rightarrow> string" where
  "rw1 s = replace_all rel_pattern1 rel_callback1 s"

fun quiet :: "string \<Rightarrow> bool" where
  "quiet [] = True"
| "quiet (x # t) = (rel1_parse (x # t) = None \<and> quiet t)"

definition st_quote2 :: "string \<Rightarrow> (char \<times> string \<times> string) option" where
  "st_quote2 s =
     (case s of [] \<Rightarrow> None
      | q # t \<Rightarrow> if is_quote q
                 then (case strip_prefix ''../pkg/'' t of None \<Rightarrow> None
                       | Some t' \<Rightarrow> map_option (Pair q) (st_path q t'))
                 else None)"

definition rel2_parse :: "string \<Rightarrow> (char \<times> string \<times> string) option" where
  "rel2_parse s =
     (case strip_prefix ''import'' s of None \<Rightarrow> None
      | Some s1 \<Rightarrow> (case strip_prefix ''('' (dropWhile is_space s1) of None \<Rightarrow> None
                    | Some s2 \<Rightarrow> st_quote2 s2))"


definition hello_module :: jsvalue where
  "hello_module = JSObject [(''default'', JSFunction 0), (''wasm_init'', JSFunction 1),
     (''get_counter'', JSFunction 2), (''increment_counter'', JSFunction 3),
     (''get_message'', JSFunction 4), (''set_message'', JSFunction 5),
     (''get_fave_car'', JSFunction 6), (''set_fave_car'', JSFunction 7),
     (''get_fave_team'', JSFunction 8), (''set_fave_team'', JSFunction 9),
     (''get_decimal'', JSFunction 10), (''set_decimal'', JSFunction 11)]"

definition counting_invoke :: "nat \<Rightarrow> event list \<Rightarrow> string + jsvalue" where
  "counting_invoke f tr = Inr (JSNumber (int (length tr)))"

definition demo_world :: world where
  "demo_world = \<lparr> import_result = Inr hello_module, invoke = counting_invoke \<rparr>"

definition initial_state :: loader_state where
  "initial_state = \<lparr> wasmModuleExports = None, trace = [] \<rparr>"


definition loaded_state :: loader_state where
  "loaded_state = snd (getInitWasm demo_world initial_state)"

definition always :: "bool \<Rightarrow> jsvalue \<Rightarrow> bool" where
  "always b v = b"

fun repeat_getInitWasm :: "world \<Rightarrow> nat \<Rightarrow> loader_state \<Rightarrow> loader_state" where
  "repeat_getInitWasm w 0 s = s"
| "repeat_getInitWasm w (Suc n) s = repeat_getInitWasm w n (snd (getInitWasm w s))"


definition astar_glue :: string where
  "astar_glue = ''export function wasm_init(a) {} export function tick () {} function key_down() {}''"

definition empty_cache_state :: loader_state where
  "empty_cache_state = \<lparr> wasmModuleExports = Some (extract_exports (JSObject [])), trace = [] \<rparr>"

definition nested_preload_chunk :: string where
  "nested_preload_chunk =
     ''__vitePreload(()=>__vitePreload(()=>import('' @ [dquote] @ ''/pkg/a'' @ [dquote] @ ''),x),[])''"

definition ws_lit :: "string \<Rightarrow> string \<Rightarrow> string option" where
  "ws_lit l s = strip_prefix l (dropWhile is_space s)"

definition pre_path :: "char \<Rightarrow> string \<Rightarrow> (string \<times> string) option" where
  "pre_path q s =
     (case s of [] \<Rightarrow> None
      | x # t \<Rightarrow> if not_quote x
          then (case strip_prefix [q] (dropWhile not_quote s) of None \<Rightarrow> None
                | Some s1 \<Rightarrow> (case strip_prefix '')'' s1 of None \<Rightarrow> None
                | Some s2 \<Rightarrow> (case ws_lit '','' s2 of None \<Rightarrow> None
                | Some s3 \<Rightarrow> Some (takeWhile not_quote s, s3))))
          else None)"

definition pre_quote :: "string \<Rightarrow> (char \<times> string \<times> string) option" where
  "pre_quote s =
     (case s of [] \<Rightarrow> None
      | q # t \<Rightarrow> if is_quote q
          then (case strip_prefix ''/pkg/'' t of None \<Rightarrow> None
                | Some t' \<Rightarrow> map_option (Pair q) (pre_path q t'))
          else None)"

definition pre_head :: "string \<Rightarrow> (char \<times> string \<times> string) option" where
  "pre_head s =
     (case strip_prefix ''__vitePreload'' s of None \<Rightarrow> None | Some s1 \<Rightarrow>
     (case ws_lit ''('' s1 of None \<Rightarrow> None | Some s2 \<Rightarrow>
     (case ws_lit ''()'' s2 of None \<Rightarrow> None | Some s3 \<Rightarrow>
     (case ws_lit ''=>'' s3 of None \<Rightarrow> None | Some s4 \<Rightarrow>
     (case ws_lit ''import'' s4 of None \<Rightarrow> None | Some s5 \<Rightarrow>
     (case ws_lit ''('' s5 of None \<Rightarrow> None | Some s6 \<Rightarrow> pre_quote s6))))))"

definition tail1_parse :: "string \<Rightarrow> string option" where
  "tail1_parse s = (case ws_lit ''[]'' s of None \<Rightarrow> None | Some s1 \<Rightarrow> ws_lit '')'' s1)"

definition tail2_parse :: "string \<Rightarrow> string option" where
  "tail2_parse s =
     (case s of [] \<Rightarrow> None
      | x # t \<Rightarrow> if not_rparen x then strip_prefix '')'' (dropWhile not_rparen s) else None)"

definition pre1_parse :: "string \<Rightarrow> (char \<times> string \<times> string) option" where
  "pre1_parse s =
     (case pre_head s of None \<Rightarrow> None
      | Some (q, p, s') \<Rightarrow> map_option (\<lambda>r. (q, p, r)) (tail1_parse s'))"

definition pre2_parse :: "string \<Rightarrow> (char \<times> string \<times> string) option" where
  "pre2_parse s =
     (case pre_head s of None \<Rightarrow> None
      | Some (q, p, s') \<Rightarrow> map_option (\<lambda>r. (q, p, r)) (tail2_parse s'))"



section \<open>Facts about the matcher and the rewriting\<close>

lemma matches_Seq_Lit:
  "matches (Seq (Lit l) R) (s, c) =
     (case strip_prefix l s of None \<Rightarrow> [] | Some s' \<Rightarrow> matches R (s', c))"
  by (simp add: matches.simps(1,3) split: option.splits)

lemma matches_Star_Class_Nil: "matches (Star (Class P)) ([], c) = [([], c)]"
  by (subst matches.simps(5)) (simp add: matches.simps(2))

lemma matches_Star_Class_Cons:
  "matches (Star (Class P)) (x # t, c) =
     (if P x then matches (Star (Class P)) (t, c) @ [(x # t, c)] else [(x # t, c)])"
  by (subst matches.simps(5)) (simp add: matches.simps(2))

lemma Seq_Star_Class_det:
  assumes "\<And>x t. P x \<Longrightarrow> matches R (x # t, c) = []"
  shows "matches (Seq (Star (Class P)) R) (s, c) = matches R (dropWhile P s, c)"
proof -
  have "concat (map (matches R) (matches (Star (Class P)) (s, c))) = matches R (dropWhile P s, c)"
  proof (induction s)
    case Nil
    show ?case by (simp add: matches_Star_Class_Nil)
  next
    case (Cons x t)
    show ?case
    proof (cases "P x")
      case True
      have "matches (Star (Class P)) (x # t, c) = matches (Star (Class P)) (t, c) @ [(x # t, c)]"
        using True by (simp only: matches_Star_Class_Cons if_True)
      then show ?thesis using Cons True assms by simp
    next
      case False
      then show ?thesis by (simp add: matches_Star_Class_Cons)
    qed
  qed
  then show ?thesis by (simp only: matches.simps(3))
qed

lemma Seq_Group_Class:
  "matches (Seq (Group n (Class P)) R) (s, c) =
     (case s of [] \<Rightarrow> [] | x # t \<Rightarrow> if P x then matches R (t, c(n \<mapsto> [x])) else [])"
  by (simp add: matches.simps(2,3,7) capture_def split: list.splits)

lemma Seq_Backref:
  "c n = Some l \<Longrightarrow> matches (Seq (Backref n) R) (s, c) =
     (case strip_prefix l s of None \<Rightarrow> [] | Some s' \<Rightarrow> matches R (s', c))"
  by (simp add: matches.simps(3,8) split: option.splits)

lemma capture_suffix: "capture n (pre @ t) (t, c) = (t, c(n \<mapsto> pre))"
  by (simp add: capture_def)

lemma matches_Group_Lit:
  "matches (Group n (Lit l)) (s, c) =
     (if take (length l) s = l then [(drop (length l) s, c(n \<mapsto> l))] else [])"
proof (cases "take (length l) s = l")
  case True
  then have "s = l @ drop (length l) s" by (metis append_take_drop_id)
  then have "capture n s (drop (length l) s, c) = (drop (length l) s, c(n \<mapsto> l))"
    using capture_suffix[of n l "drop (length l) s" c] by simp
  with True show ?thesis by (simp add: matches.simps(1,7) strip_prefix_def)
next
  case False
  then show ?thesis by (simp add: matches.simps(1,7) strip_prefix_def)
qed

lemma Star_Group_Lit_det:
  assumes cn: "c n = Some l" and ne: "l \<noteq> []"
    and fail: "\<And>t. matches R (l @ t, c) = []"
  shows "concat (map (matches R) (matches (Star (Group n (Lit l))) (s, c))) =
           matches R (drop_reps l s, c)"
proof (induction s rule: measure_induct_rule[of length])
  case (less s)
  have upd: "c(n \<mapsto> l) = c" using cn by (rule map_upd_triv)
  show ?case
  proof (cases "take (length l) s = l")
    case True
    then have le: "length l \<le> length s"
      by (metis length_take min.cobounded1 min.commute)
    with ne have lt: "length (drop (length l) s) < length s" by (cases l) auto
    have s_eq: "s = l @ drop (length l) s" using True by (metis append_take_drop_id)
    have "matches (Star (Group n (Lit l))) (s, c) =
            matches (Star (Group n (Lit l))) (drop (length l) s, c) @ [(s, c)]"
      apply (subst matches.simps(5))
      using True lt upd by (simp add: matches_Group_Lit del: length_drop)
    moreover have "matches R (s, c) = []" using fail[of "drop (length l) s"] s_eq by simp
    moreover have "drop_reps l s = drop_reps l (drop (length l) s)"
      using True ne by (subst drop_reps.simps) simp
    ultimately show ?thesis using less[OF lt] by simp
  next
    case False
    have "matches (Star (Group n (Lit l))) (s, c) = [(s, c)]"
      apply (subst matches.simps(5))
      using False by (simp add: matches_Group_Lit)
    moreover have "drop_reps l s = s" using False by (subst drop_reps.simps) simp
    ultimately show ?thesis by simp
  qed
qed

lemma Seq_Plus_Group_Lit_det:
  assumes ne: "l \<noteq> []" and fail: "\<And>t. matches R (l @ t, c(n \<mapsto> l)) = []"
  shows "matches (Seq (Plus (Group n (Lit l))) R) (s, c) =
           (case strip_prefix l s of None \<Rightarrow> []
            | Some s1 \<Rightarrow> matches R (drop_reps l s1, c(n \<mapsto> l)))"
proof (cases "take (length l) s = l")
  case True
  have "concat (map (matches R) (matches (Star (Group n (Lit l))) (drop (length l) s, c(n \<mapsto> l)))) =
          matches R (drop_reps l (drop (length l) s), c(n \<mapsto> l))"
    by (rule Star_Group_Lit_det) (simp_all add: ne fail)
  then show ?thesis using True
    by (simp add: matches.simps(3,6) matches_Group_Lit strip_prefix_def)
next
  case False
  then show ?thesis by (simp add: matches.simps(3,6) matches_Group_Lit strip_prefix_def)
qed

lemma matches_Plus_Class:
  "matches (Plus (Class P)) (s, c) =
     (case s of [] \<Rightarrow> [] | x # t \<Rightarrow> if P x then matches (Star (Class P)) (t, c) else [])"
  by (simp add: matches.simps(2,6) split: list.splits)

lemma Star_Class_capture_det:
  assumes fail: "\<And>x t m. P x \<Longrightarrow> matches R (x # t, c(n \<mapsto> m)) = []"
  shows "concat (map (\<lambda>st'. matches R (capture n (pre @ t) st')) (matches (Star (Class P)) (t, c))) =
           matches R (dropWhile P t, c(n \<mapsto> pre @ takeWhile P t))"
proof (induction t arbitrary: pre)
  case Nil
  show "concat (map (\<lambda>st'. matches R (capture n (pre @ []) st')) (matches (Star (Class P)) ([], c))) =
           matches R (dropWhile P [], c(n \<mapsto> pre @ takeWhile P []))"
    using capture_suffix[of n pre "[]" c] by (simp add: matches_Star_Class_Nil)
next
  case (Cons x t)
  have IH: "concat (map (\<lambda>st'. matches R (capture n ((pre @ [x]) @ t) st')) (matches (Star (Class P)) (t, c))) =
           matches R (dropWhile P t, c(n \<mapsto> (pre @ [x]) @ takeWhile P t))"
    using Cons[of "pre @ [x]"] .
  show "concat (map (\<lambda>st'. matches R (capture n (pre @ x # t) st')) (matches (Star (Class P)) (x # t, c))) =
           matches R (dropWhile P (x # t), c(n \<mapsto> pre @ takeWhile P (x # t)))"
  proof (cases "P x")
    case True
    have "matches (Star (Class P)) (x # t, c) = matches (Star (Class P)) (t, c) @ [(x # t, c)]"
      using True by (simp only: matches_Star_Class_Cons if_True)
    moreover have "pre @ x # t = (pre @ [x]) @ t" by simp
    moreover have "matches R (capture n (pre @ x # t) (x # t, c)) = []"
      using fail[OF True] by (simp add: capture_suffix)
    ultimately show ?thesis using IH True by simp
  next
    case False
    then show ?thesis by (simp add: matches_Star_Class_Cons capture_suffix)
  qed
qed

lemma Seq_Group_Plus_Class_det:
  assumes fail: "\<And>x t m. P x \<Longrightarrow> matches R (x # t, c(n \<mapsto> m)) = []"
  shows "matches (Seq (Group n (Plus (Class P))) R) (s, c) =
           (case s of [] \<Rightarrow> []
            | x # t \<Rightarrow> if P x then matches R (dropWhile P s, c(n \<mapsto> takeWhile P s)) else [])"
proof (cases s)
  case Nil
  then show ?thesis by (simp add: matches.simps(3,7) matches_Plus_Class)
next
  case (Cons x t)
  show ?thesis
  proof (cases "P x")
    case True
    have "concat (map (\<lambda>st'. matches R (capture n ([x] @ t) st')) (matches (Star (Class P)) (t, c))) =
           matches R (dropWhile P t, c(n \<mapsto> [x] @ takeWhile P t))"
      by (rule Star_Class_capture_det) (rule fail)
    then show ?thesis using Cons True
      by (simp add: matches.simps(3,7) matches_Plus_Class comp_def)
  next
    case False
    then show ?thesis using Cons by (simp add: matches.simps(3,7) matches_Plus_Class)
  qed
qed

lemma Seq_Plus_Class_det:
  assumes fail: "\<And>x t. P x \<Longrightarrow> matches R (x # t, c) = []"
  shows "matches (Seq (Plus (Class P)) R) (s, c) =
           (case s of [] \<Rightarrow> []
            | x # t \<Rightarrow> if P x then matches R (dropWhile P s, c) else [])"
proof (cases s)
  case Nil
  then show ?thesis by (simp add: matches.simps(3) matches_Plus_Class)
next
  case (Cons x t)
  have "matches (Seq (Star (Class P)) R) (t, c) = matches R (dropWhile P t, c)"
    by (rule Seq_Star_Class_det) (rule fail)
  then show ?thesis using Cons
    by (simp add: matches.simps(3) matches_Plus_Class)
qed

lemma matches_Lit: "matches (Lit l) (s, c) = (case strip_prefix l s of None \<Rightarrow> [] | Some s' \<Rightarrow> [(s', c)])"
  by (cases "strip_prefix l s") (simp_all add: matches.simps(1))

lemma strip_prefix_Cons:
  "strip_prefix (a # l) s = (case s of [] \<Rightarrow> None | x # t \<Rightarrow> if x = a then strip_prefix l t else None)"
  by (auto simp: strip_prefix_def split: list.splits)

lemma strip_prefix_Nil: "strip_prefix [] s = Some s"
  by (simp add: strip_prefix_def)

lemma nq_neq: "not_quote x \<Longrightarrow> is_quote q \<Longrightarrow> x \<noteq> q"
  by (auto simp: not_quote_def is_quote_def)

lemma close_matches:
  "c (Suc 0) = Some [q] \<Longrightarrow>
   matches (Seq (Backref (Suc 0)) (Lit '')'')) (s, c) =
     (case st_close q s of None \<Rightarrow> [] | Some r \<Rightarrow> [(r, c)])"
  by (simp add: Seq_Backref matches_Lit st_close_def split: option.splits)

lemma path_matches:
  assumes "c (Suc 0) = Some [q]" "is_quote q" "n \<noteq> Suc 0"
  shows "matches (Seq (Group n (Plus (Class not_quote))) (Seq (Backref (Suc 0)) (Lit '')''))) (s, c) =
     (case st_path q s of None \<Rightarrow> [] | Some (p, r) \<Rightarrow> [(r, c(n \<mapsto> p))])"
proof -
  have fail: "\<And>x t m. not_quote x \<Longrightarrow>
      matches (Seq (Backref (Suc 0)) (Lit '')'')) (x # t, c(n \<mapsto> m)) = []"
    using assms by (simp add: close_matches st_close_def strip_prefix_Cons nq_neq)
  show ?thesis
    apply (subst Seq_Group_Plus_Class_det)
     apply (rule fail, assumption)
    using assms by (simp add: close_matches st_path_def split: list.splits option.splits)
qed

lemma pkg_matches:
  assumes "c (Suc 0) = Some [q]" "is_quote q" "n \<noteq> Suc 0"
  shows "matches (Seq (Lit ''pkg/'') (Seq (Group n (Plus (Class not_quote))) (Seq (Backref (Suc 0)) (Lit '')'')))) (s, c) =
     (case st_pkg q s of None \<Rightarrow> [] | Some (p, r) \<Rightarrow> [(r, c(n \<mapsto> p))])"
  using assms by (simp add: matches_Seq_Lit path_matches st_pkg_def split: option.splits)

lemma dots_matches:
  assumes "c (Suc 0) = Some [q]" "is_quote q"
  shows "matches (Seq (Plus (Group 2 (Lit ''../'')))
            (Seq (Lit ''pkg/'') (Seq (Group 3 (Plus (Class not_quote))) (Seq (Backref (Suc 0)) (Lit '')''))))) (s, c) =
     (case st_dots q s of None \<Rightarrow> [] | Some (p, r) \<Rightarrow> [(r, c(2 \<mapsto> ''../'', 3 \<mapsto> p))])"
proof -
  have c2: "(c(2 \<mapsto> ''../'')) (Suc 0) = Some [q]" using assms by simp
  show ?thesis
    apply (subst Seq_Plus_Group_Lit_det)
      apply simp
     apply (simp add: matches_Seq_Lit strip_prefix_Cons)
    using pkg_matches[of "c(2 \<mapsto> ''../'')" q 3, OF c2 assms(2)]
    by (simp add: st_dots_def split: option.splits)
qed

lemma rel1_matches:
  "matches rel_pattern1 (s, c) =
     (case rel1_parse s of None \<Rightarrow> []
      | Some (q, p, r) \<Rightarrow> [(r, c(Suc 0 \<mapsto> [q], 2 \<mapsto> ''../'', 3 \<mapsto> p))])"
proof -
  have not_space: "\<And>x. is_space x \<Longrightarrow> x \<noteq> CHR ''(''"
    by (auto simp: is_space_def)
  have quote: "\<And>s c. matches (Seq (Group (Suc 0) (Class is_quote)) (Seq (Plus (Group 2 (Lit ''../'')))
            (Seq (Lit ''pkg/'') (Seq (Group 3 (Plus (Class not_quote))) (Seq (Backref (Suc 0)) (Lit '')'')))))) (s, c) =
     (case st_quote s of None \<Rightarrow> []
      | Some (q, p, r) \<Rightarrow> [(r, c(Suc 0 \<mapsto> [q], 2 \<mapsto> ''../'', 3 \<mapsto> p))])"
    by (simp add: Seq_Group_Class dots_matches st_quote_def split: list.splits option.splits)
  have paren: "\<And>s c. matches (Seq (Star (Class is_space)) (Seq (Lit ''('')
          (Seq (Group (Suc 0) (Class is_quote)) (Seq (Plus (Group 2 (Lit ''../'')))
            (Seq (Lit ''pkg/'') (Seq (Group 3 (Plus (Class not_quote))) (Seq (Backref (Suc 0)) (Lit '')'')))))))) (s, c) =
     (case st_paren s of None \<Rightarrow> []
      | Some (q, p, r) \<Rightarrow> [(r, c(Suc 0 \<mapsto> [q], 2 \<mapsto> ''../'', 3 \<mapsto> p))])"
    apply (subst Seq_Star_Class_det)
     apply (simp add: matches_Seq_Lit strip_prefix_Cons not_space)
    apply (simp add: matches_Seq_Lit quote st_paren_def split: option.splits)
    done
  show ?thesis
    unfolding rel_pattern1_def seqs.simps
    by (simp add: matches_Seq_Lit paren rel1_parse_def split: option.splits)
qed

lemma strip_prefix_SomeD: "strip_prefix l s = Some r \<Longrightarrow> s = l @ r"
  by (auto simp: strip_prefix_def split: if_splits) (metis append_take_drop_id)


lemma strip_prefix_length: "strip_prefix l s = Some r \<Longrightarrow> length s = length l + length r"
  by (drule strip_prefix_SomeD) simp

lemma drop_reps_length: "length (drop_reps l s) \<le> length s"
proof (induction s rule: measure_induct_rule[of length])
  case (less s)
  show ?case
  proof (cases "l \<noteq> [] \<and> take (length l) s = l")
    case True
    then have "length l \<le> length s" by (metis length_take min.cobounded1 min.commute)
    with True have lt: "length (drop (length l) s) < length s" by (cases l) auto
    have "drop_reps l s = drop_reps l (drop (length l) s)"
      using True by (subst drop_reps.simps) simp
    then show ?thesis using less[OF lt] by simp
  next
    case False
    then have "drop_reps l s = s" by (subst drop_reps.simps) auto
    then show ?thesis by simp
  qed
qed

lemma st_close_length: "st_close q s = Some r \<Longrightarrow> length r < length s"
  by (auto simp: st_close_def split: option.splits dest!: strip_prefix_length)

lemma st_path_length: "st_path q s = Some (p, r) \<Longrightarrow> length r < length s"
proof -
  assume a: "st_path q s = Some (p, r)"
  then have "st_close q (dropWhile not_quote s) = Some r"
    by (auto simp: st_path_def split: list.splits if_splits)
  then have "length r < length (dropWhile not_quote s)" by (rule st_close_length)
  then show ?thesis using length_dropWhile_le[of not_quote s] by simp
qed

lemma st_pkg_length: "st_pkg q s = Some (p, r) \<Longrightarrow> length r < length s"
  by (auto simp: st_pkg_def split: option.splits dest!: strip_prefix_length st_path_length)

lemma st_dots_length: "st_dots q s = Some (p, r) \<Longrightarrow> length r < length s"
proof -
  assume a: "st_dots q s = Some (p, r)"
  then obtain s' where s': "strip_prefix ''../'' s = Some s'" "st_pkg q (drop_reps ''../'' s') = Some (p, r)"
    by (auto simp: st_dots_def split: option.splits)
  have "length r < length (drop_reps ''../'' s')" using s'(2) by (rule st_pkg_length)
  then show ?thesis using drop_reps_length[of "''../''" s'] strip_prefix_length[OF s'(1)] by simp
qed

lemma st_quote_length: "st_quote s = Some (q, p, r) \<Longrightarrow> length r < length s"
  by (auto simp: st_quote_def split: list.splits if_splits dest!: st_dots_length)

lemma st_paren_length: "st_paren s = Some (q, p, r) \<Longrightarrow> length r < length s"
proof -
  assume a: "st_paren s = Some (q, p, r)"
  then obtain s' where s': "strip_prefix ''('' (dropWhile is_space s) = Some s'" "st_quote s' = Some (q, p, r)"
    by (auto simp: st_paren_def split: option.splits)
  show ?thesis
    using st_quote_length[OF s'(2)] strip_prefix_length[OF s'(1)] length_dropWhile_le[of is_space s]
    by simp
qed

lemma rel1_parse_length: "rel1_parse s = Some (q, p, r) \<Longrightarrow> length r < length s"
  by (auto simp: rel1_parse_def split: option.splits dest!: strip_prefix_length st_paren_length)

lemma first_match_rel1:
  "first_match rel_pattern1 s =
     (case rel1_parse s of None \<Rightarrow> None
      | Some (q, p, r) \<Rightarrow> Some (r, [Suc 0 \<mapsto> [q], 2 \<mapsto> ''../'', 3 \<mapsto> p]))"
  by (simp add: first_match_def rel1_matches split: option.splits)

lemma rw1_match: "rel1_parse s = Some (q, p, r) \<Longrightarrow> rw1 s = absolute_import [q] p @ rw1 r"
  unfolding rw1_def
  by (subst replace_all.simps)
     (simp add: first_match_rel1 rel1_parse_length rel_callback1_def group_text_def)

lemma rw1_Nil: "rw1 [] = []"
  unfolding rw1_def
  by (subst replace_all.simps) (simp add: first_match_rel1 rel1_parse_def strip_prefix_def)

lemma rw1_Cons: "rel1_parse (x # t) = None \<Longrightarrow> rw1 (x # t) = x # rw1 t"
  unfolding rw1_def
  by (subst replace_all.simps) (simp add: first_match_rel1)

lemma rel1_parse_Nil: "rel1_parse [] = None"
  by (simp add: rel1_parse_def strip_prefix_def)

lemma quiet_fixed: "quiet s \<Longrightarrow> rw1 s = s"
  by (induction s) (simp_all add: rw1_Nil rw1_Cons)

lemma dropWhile_dropWhile_weaker:
  "(\<And>x. P x \<Longrightarrow> Q x) \<Longrightarrow> dropWhile Q (dropWhile P s) = dropWhile Q s"
  by (induction s) auto

lemma space_not_quote: "is_space x \<Longrightarrow> not_quote x"
  by (auto simp: is_space_def not_quote_def squote_def dquote_def)

lemma quote_not_nq: "is_quote q \<Longrightarrow> \<not> not_quote q"
  by (auto simp: is_quote_def not_quote_def)

lemma first_quote_dot:
  assumes "rel1_parse s \<noteq> None"
  shows "\<exists>q t. dropWhile not_quote s = q # CHR ''.'' # t"
proof -
  from assms obtain s1 where s1: "strip_prefix ''import'' s = Some s1" "st_paren s1 \<noteq> None"
    by (auto simp: rel1_parse_def split: option.splits)
  from s1(2) obtain s2 where s2: "strip_prefix ''('' (dropWhile is_space s1) = Some s2" "st_quote s2 \<noteq> None"
    by (auto simp: st_paren_def split: option.splits)
  from s2(2) obtain q s3 where s3: "s2 = q # s3" "is_quote q" "st_dots q s3 \<noteq> None"
    by (auto simp: st_quote_def split: list.splits if_splits)
  from s3(3) obtain s4 where s4: "strip_prefix ''../'' s3 = Some s4"
    by (auto simp: st_dots_def split: option.splits)
  have "s = ''import'' @ s1" using s1(1) by (rule strip_prefix_SomeD)
  then have a: "dropWhile not_quote s = dropWhile not_quote s1"
    by (simp add: not_quote_def squote_def dquote_def)
  have b: "dropWhile not_quote s1 = dropWhile not_quote (dropWhile is_space s1)"
    by (rule dropWhile_dropWhile_weaker[symmetric]) (rule space_not_quote)
  have "dropWhile is_space s1 = ''('' @ s2" using s2(1) by (rule strip_prefix_SomeD)
  then have c: "dropWhile not_quote (dropWhile is_space s1) = dropWhile not_quote s2"
    by (simp add: not_quote_def squote_def dquote_def)
  have d: "dropWhile not_quote s2 = q # s3" using s3 by (simp add: quote_not_nq)
  have "s3 = ''../'' @ s4" using s4 by (rule strip_prefix_SomeD)
  with a b c d show ?thesis by simp
qed

lemma no_parse_before_quote:
  assumes "\<forall>x\<in>set a. not_quote x" "is_quote q" "c \<noteq> CHR ''.''"
  shows "rel1_parse (a @ q # c # w) = None"
proof (rule ccontr)
  assume "rel1_parse (a @ q # c # w) \<noteq> None"
  then obtain q' t where "dropWhile not_quote (a @ q # c # w) = q' # CHR ''.'' # t"
    using first_quote_dot by blast
  moreover have "dropWhile not_quote (a @ q # c # w) = q # c # w"
    using assms(1,2) by (simp add: dropWhile_append3 quote_not_nq)
  ultimately show False using assms(3) by simp
qed

lemma quiet_before_quote:
  assumes "\<forall>x\<in>set a. not_quote x" "is_quote q" "c \<noteq> CHR ''.''" "quiet (c # w)"
  shows "quiet (a @ q # c # w)"
  using assms(1)
proof (induction a)
  case Nil
  show ?case using no_parse_before_quote[of "[]" q c w] assms by simp
next
  case (Cons x a)
  then show ?case using no_parse_before_quote[of "x # a" q c w] assms by simp
qed

lemma rel1_parse_head: "x \<noteq> CHR ''i'' \<Longrightarrow> rel1_parse (x # t) = None"
  by (simp add: rel1_parse_def strip_prefix_Cons)

lemma quiet_replacement:
  assumes "is_quote q" "\<forall>x\<in>set p. not_quote x" "quiet w"
  shows "quiet (absolute_import [q] p @ w)"
proof -
  have 1: "quiet (CHR '')'' # w)" using assms(3) by (simp add: rel1_parse_head)
  have 2: "quiet ((''pkg/'' @ p) @ q # CHR '')'' # w)"
    by (rule quiet_before_quote) (use assms 1 in \<open>auto simp: not_quote_def squote_def dquote_def\<close>)
  have 3: "quiet (CHR ''/'' # ''pkg/'' @ p @ q # CHR '')'' # w)"
    using 2 by (simp add: rel1_parse_head)
  have "quiet (''import('' @ q # CHR ''/'' # ''pkg/'' @ p @ q # CHR '')'' # w)"
    by (rule quiet_before_quote) (use assms 3 in \<open>auto simp: not_quote_def squote_def dquote_def\<close>)
  then show ?thesis by (simp add: absolute_import_def)
qed

lemma st_close_quote: "st_close q s = Some r \<longleftrightarrow> s = q # CHR '')'' # r"
  by (auto simp: st_close_def strip_prefix_Cons strip_prefix_Nil split: option.splits list.splits if_splits)

lemma rel1_parse_parts:
  assumes "rel1_parse s = Some (q, p, r)"
  shows "is_quote q \<and> (\<forall>x\<in>set p. not_quote x)"
proof -
  from assms obtain s1 where s1: "st_paren s1 = Some (q, p, r)"
    by (auto simp: rel1_parse_def split: option.splits)
  then obtain s2 where s2: "st_quote s2 = Some (q, p, r)"
    by (auto simp: st_paren_def split: option.splits)
  then obtain s3 where s3: "is_quote q" "st_dots q s3 = Some (p, r)"
    by (auto simp: st_quote_def split: list.splits if_splits)
  then obtain s4 where "st_pkg q s4 = Some (p, r)"
    by (auto simp: st_dots_def split: option.splits)
  then obtain s5 where "st_path q s5 = Some (p, r)"
    by (auto simp: st_pkg_def split: option.splits)
  then have "p = takeWhile not_quote s5"
    by (auto simp: st_path_def split: list.splits if_splits)
  then have "\<forall>x\<in>set p. not_quote x" by (auto dest: set_takeWhileD)
  with s3(1) show ?thesis by simp
qed

lemma rw1_head:
  assumes "rw1 t = y # w" "y \<noteq> CHR ''i''"
  shows "\<exists>t'. t = y # t' \<and> w = rw1 t'"
proof (cases "rel1_parse t")
  case None
  show ?thesis
  proof (cases t)
    case Nil
    then show ?thesis using assms by (simp add: rw1_Nil)
  next
    case (Cons x t')
    then have "rw1 t = x # rw1 t'" using None by (simp add: rw1_Cons)
    then show ?thesis using assms Cons by simp
  qed
next
  case (Some a)
  then obtain q p r where "rel1_parse t = Some (q, p, r)" by (cases a) auto
  then have "rw1 t = absolute_import [q] p @ rw1 r" by (rule rw1_match)
  then show ?thesis using assms by (simp add: absolute_import_def)
qed

lemma rw1_strip:
  assumes "strip_prefix l (rw1 t) = Some w" "CHR ''i'' \<notin> set l"
  shows "\<exists>t'. strip_prefix l t = Some t' \<and> w = rw1 t'"
  using assms
proof (induction l arbitrary: t)
  case Nil
  then show ?case by (simp add: strip_prefix_Nil)
next
  case (Cons a l)
  from Cons.prems(1) obtain w1 where w1: "rw1 t = a # w1" "strip_prefix l w1 = Some w"
    by (auto simp: strip_prefix_Cons split: list.splits if_splits)
  from rw1_head[OF w1(1)] Cons.prems(2) obtain t1 where t1: "t = a # t1" "w1 = rw1 t1" by auto
  from Cons.IH[of t1] w1(2) t1(2) Cons.prems(2)
  obtain t' where "strip_prefix l t1 = Some t'" "w = rw1 t'" by auto
  then show ?case using t1(1) by (simp add: strip_prefix_Cons)
qed

lemma rw1_append_no_i: "CHR ''i'' \<notin> set l \<Longrightarrow> rw1 (l @ t) = l @ rw1 t"
proof (induction l)
  case Nil
  show ?case by simp
next
  case (Cons a l)
  then have "a \<noteq> CHR ''i''" by auto
  then have "rw1 (a # l @ t) = a # rw1 (l @ t)" by (simp add: rw1_Cons rel1_parse_head)
  then show ?case using Cons by simp
qed

lemma drop_reps_None: "strip_prefix l s = None \<Longrightarrow> drop_reps l s = s"
  apply (subst drop_reps.simps)
  apply (simp add: strip_prefix_def split: if_splits)
  done

lemma drop_reps_Some: "strip_prefix l s = Some s' \<Longrightarrow> l \<noteq> [] \<Longrightarrow> drop_reps l s = drop_reps l s'"
  apply (subst drop_reps.simps)
  apply (simp add: strip_prefix_def split: if_splits)
  done

lemma rw1_dropWhile_space: "dropWhile is_space (rw1 t) = rw1 (dropWhile is_space t)"
proof (induction t)
  case Nil
  show ?case by (simp add: rw1_Nil)
next
  case (Cons x t)
  show ?case
  proof (cases "is_space x")
    case True
    then have "x \<noteq> CHR ''i''" by (auto simp: is_space_def)
    then have "rw1 (x # t) = x # rw1 t" by (simp add: rw1_Cons rel1_parse_head)
    then show ?thesis using True Cons by simp
  next
    case False
    have "dropWhile is_space (rw1 (x # t)) = rw1 (x # t)"
    proof (cases "rel1_parse (x # t)")
      case None
      then show ?thesis using False by (simp add: rw1_Cons)
    next
      case (Some a)
      then obtain q p r where "rel1_parse (x # t) = Some (q, p, r)" by (cases a) auto
      then have "rw1 (x # t) = absolute_import [q] p @ rw1 r" by (rule rw1_match)
      then show ?thesis by (simp add: absolute_import_def is_space_def)
    qed
    then show ?thesis using False by simp
  qed
qed

lemma rw1_drop_reps: "drop_reps ''../'' (rw1 t) = rw1 (drop_reps ''../'' t)"
proof (induction t rule: measure_induct_rule[of length])
  case (less t)
  show ?case
  proof (cases "strip_prefix ''../'' t")
    case None
    then have a: "drop_reps ''../'' t = t" by (rule drop_reps_None)
    have "strip_prefix ''../'' (rw1 t) = None"
    proof (cases "strip_prefix ''../'' (rw1 t)")
      case (Some w)
      then obtain t' where "strip_prefix ''../'' t = Some t'" using rw1_strip[of "''../''" t w] by auto
      then show ?thesis using None by simp
    qed simp
    then have "drop_reps ''../'' (rw1 t) = rw1 t" by (rule drop_reps_None)
    then show ?thesis using a by simp
  next
    case (Some t')
    then have t: "t = ''../'' @ t'" by (rule strip_prefix_SomeD)
    then have Rt: "rw1 t = ''../'' @ rw1 t'" using rw1_append_no_i[of "''../''" t'] by simp
    have "drop_reps ''../'' t = drop_reps ''../'' t'" using Some by (simp add: drop_reps_Some)
    moreover have "strip_prefix ''../'' (rw1 t) = Some (rw1 t')" by (simp add: Rt strip_prefix_def)
    then have "drop_reps ''../'' (rw1 t) = drop_reps ''../'' (rw1 t')" by (simp add: drop_reps_Some)
    moreover have "length t' < length t" using t by simp
    ultimately show ?thesis using less by simp
  qed
qed

lemma dropWhile_nq_import:
  "is_quote q \<Longrightarrow> dropWhile not_quote (''import('' @ q # w) = q # w"
  by (auto simp: not_quote_def is_quote_def squote_def dquote_def)

lemma scan_rw1:
  "st_close q (dropWhile not_quote (rw1 t)) \<noteq> None \<Longrightarrow> st_close q (dropWhile not_quote t) \<noteq> None"
proof (induction t)
  case Nil
  then show ?case by (simp add: rw1_Nil)
next
  case (Cons x t)
  show ?case
  proof (cases "rel1_parse (x # t)")
    case (Some a)
    then obtain q' p r where m: "rel1_parse (x # t) = Some (q', p, r)" by (cases a) auto
    then have "rw1 (x # t) = absolute_import [q'] p @ rw1 r" by (rule rw1_match)
    moreover have "is_quote q'" using rel1_parse_parts[OF m] by simp
    ultimately have "dropWhile not_quote (rw1 (x # t)) = q' # ''/pkg/'' @ p @ q' # CHR '')'' # rw1 r"
      using dropWhile_nq_import[of q' "''/pkg/'' @ p @ q' # CHR '')'' # rw1 r"]
      by (simp add: absolute_import_def)
    then have "st_close q (dropWhile not_quote (rw1 (x # t))) = None"
      by (cases "st_close q (dropWhile not_quote (rw1 (x # t)))") (auto simp: st_close_quote)
    then show ?thesis using Cons.prems by simp
  next
    case None
    then have Rx: "rw1 (x # t) = x # rw1 t" by (simp add: rw1_Cons)
    show ?thesis
    proof (cases "not_quote x")
      case True
      then show ?thesis using Cons Rx by simp
    next
      case False
      then have "st_close q (x # rw1 t) \<noteq> None" using Cons.prems Rx by simp
      then obtain r where "x # rw1 t = q # CHR '')'' # r" by (auto simp: st_close_quote)
      then have xq: "x = q" and "rw1 t = CHR '')'' # r" by simp_all
      then obtain t' where "t = CHR '')'' # t'" using rw1_head[of t "CHR '')''" r] by auto
      then show ?thesis using False xq by (simp add: st_close_quote)
    qed
  qed
qed

lemma st_path_iff:
  "st_path q s \<noteq> None \<longleftrightarrow>
     (\<exists>x t. s = x # t \<and> not_quote x) \<and> st_close q (dropWhile not_quote s) \<noteq> None"
  by (cases s) (auto simp: st_path_def)

lemma st_pathI:
  "not_quote x \<Longrightarrow> st_close q (dropWhile not_quote (x # t)) \<noteq> None \<Longrightarrow> st_path q (x # t) \<noteq> None"
  using st_path_iff[of q "x # t"] by blast

lemma strip_prefix_Cons_Cons:
  "strip_prefix (a # l) (x # t) = (if x = a then strip_prefix l t else None)"
  by (simp add: strip_prefix_Cons)

lemma st_path_rw1: "st_path q (rw1 t) \<noteq> None \<Longrightarrow> st_path q t \<noteq> None"
proof -
  assume a: "st_path q (rw1 t) \<noteq> None"
  then have "(\<exists>x w. rw1 t = x # w \<and> not_quote x) \<and> st_close q (dropWhile not_quote (rw1 t)) \<noteq> None"
    using st_path_iff[of q "rw1 t"] by blast
  then obtain x w where xw: "rw1 t = x # w" "not_quote x"
    and sc: "st_close q (dropWhile not_quote (rw1 t)) \<noteq> None"
    by blast
  have sc': "st_close q (dropWhile not_quote t) \<noteq> None" using sc by (rule scan_rw1)
  show ?thesis
  proof (cases t)
    case Nil
    then show ?thesis using xw by (simp add: rw1_Nil)
  next
    case (Cons y t')
    show ?thesis
    proof (cases "rel1_parse t")
      case None
      then have "rw1 t = y # rw1 t'" using Cons by (simp add: rw1_Cons)
      then have "y = x" using xw by simp
      then show ?thesis using Cons xw(2) sc' st_pathI[of x q t'] by simp
    next
      case (Some a)
      then have "rel1_parse (y # t') \<noteq> None" using Cons by simp
      then have "y = CHR ''i''" by (metis rel1_parse_head)
      then have "not_quote y" by (simp add: not_quote_def squote_def dquote_def)
      then show ?thesis using Cons sc' st_pathI[of y q t'] by simp
    qed
  qed
qed

lemma st_pkg_rw1: "st_pkg q (rw1 t) \<noteq> None \<Longrightarrow> st_pkg q t \<noteq> None"
proof -
  assume "st_pkg q (rw1 t) \<noteq> None"
  then obtain w where w: "strip_prefix ''pkg/'' (rw1 t) = Some w" "st_path q w \<noteq> None"
    by (auto simp: st_pkg_def split: option.splits)
  from rw1_strip[OF w(1)] obtain t' where t': "strip_prefix ''pkg/'' t = Some t'" "w = rw1 t'" by auto
  then have "st_path q t' \<noteq> None" using w(2) st_path_rw1 by simp
  then show ?thesis using t'(1) by (simp add: st_pkg_def)
qed

lemma st_dots_rw1: "st_dots q (rw1 t) \<noteq> None \<Longrightarrow> st_dots q t \<noteq> None"
proof -
  assume "st_dots q (rw1 t) \<noteq> None"
  then obtain w where w: "strip_prefix ''../'' (rw1 t) = Some w" "st_pkg q (drop_reps ''../'' w) \<noteq> None"
    by (auto simp: st_dots_def split: option.splits)
  from rw1_strip[OF w(1)] obtain t' where t': "strip_prefix ''../'' t = Some t'" "w = rw1 t'" by auto
  then have "st_pkg q (rw1 (drop_reps ''../'' t')) \<noteq> None" using w(2) by (simp add: rw1_drop_reps)
  then have "st_pkg q (drop_reps ''../'' t') \<noteq> None" by (rule st_pkg_rw1)
  then show ?thesis using t'(1) by (simp add: st_dots_def)
qed

lemma st_quote_rw1: "st_quote (rw1 t) \<noteq> None \<Longrightarrow> st_quote t \<noteq> None"
proof -
  assume "st_quote (rw1 t) \<noteq> None"
  then obtain q w where w: "rw1 t = q # w" "is_quote q" "st_dots q w \<noteq> None"
    by (auto simp: st_quote_def split: list.splits if_splits)
  have "q \<noteq> CHR ''i''" using w(2) by (auto simp: is_quote_def squote_def dquote_def)
  from rw1_head[OF w(1) this] obtain t' where t': "t = q # t'" "w = rw1 t'" by auto
  then have "st_dots q t' \<noteq> None" using w(3) st_dots_rw1 by simp
  then show ?thesis using t'(1) w(2) by (auto simp: st_quote_def)
qed

lemma st_paren_rw1: "st_paren (rw1 t) \<noteq> None \<Longrightarrow> st_paren t \<noteq> None"
proof -
  assume "st_paren (rw1 t) \<noteq> None"
  then obtain w where w: "strip_prefix ''('' (rw1 (dropWhile is_space t)) = Some w" "st_quote w \<noteq> None"
    by (auto simp: st_paren_def rw1_dropWhile_space split: option.splits)
  from rw1_strip[OF w(1)] obtain t' where t': "strip_prefix ''('' (dropWhile is_space t) = Some t'" "w = rw1 t'"
    by auto
  then have "st_quote t' \<noteq> None" using w(2) st_quote_rw1 by simp
  then show ?thesis using t'(1) by (simp add: st_paren_def)
qed

lemma rel1_parse_rw1: "rel1_parse (x # t) = None \<Longrightarrow> rel1_parse (x # rw1 t) = None"
proof (rule ccontr)
  assume n: "rel1_parse (x # t) = None" and "rel1_parse (x # rw1 t) \<noteq> None"
  then obtain w where w: "strip_prefix ''import'' (x # rw1 t) = Some w" "st_paren w \<noteq> None"
    by (auto simp: rel1_parse_def split: option.splits)
  then have x: "x = CHR ''i''" and w': "strip_prefix ''mport'' (rw1 t) = Some w"
    by (auto simp: strip_prefix_Cons_Cons split: if_splits)
  from rw1_strip[OF w'] obtain t' where t': "strip_prefix ''mport'' t = Some t'" "w = rw1 t'" by auto
  then have "st_paren t' \<noteq> None" using w(2) st_paren_rw1 by simp
  moreover have "strip_prefix ''import'' (x # t) = Some t'"
    using x t'(1) by (simp add: strip_prefix_Cons_Cons)
  ultimately show False using n by (simp add: rel1_parse_def)
qed

lemma quiet_rw1: "quiet (rw1 s)"
proof (induction s rule: measure_induct_rule[of length])
  case (less s)
  show ?case
  proof (cases "rel1_parse s")
    case None
    show ?thesis
    proof (cases s)
      case Nil
      then show ?thesis by (simp add: rw1_Nil)
    next
      case (Cons x t)
      then have "rw1 s = x # rw1 t" using None by (simp add: rw1_Cons)
      moreover have "rel1_parse (x # rw1 t) = None" using None Cons by (simp add: rel1_parse_rw1)
      moreover have "quiet (rw1 t)" using less Cons by simp
      ultimately show ?thesis by simp
    qed
  next
    case (Some a)
    then obtain q p r where m: "rel1_parse s = Some (q, p, r)" by (cases a) auto
    then have "rw1 s = absolute_import [q] p @ rw1 r" by (rule rw1_match)
    moreover have "quiet (rw1 r)" using less rel1_parse_length[OF m] by simp
    ultimately show ?thesis using rel1_parse_parts[OF m] by (simp add: quiet_replacement)
  qed
qed

lemma rw1_idem: "rw1 (rw1 s) = rw1 s"
  by (rule quiet_fixed) (rule quiet_rw1)

lemma rel2_matches:
  "matches rel_pattern2 (s, c) =
     (case rel2_parse s of None \<Rightarrow> []
      | Some (q, p, r) \<Rightarrow> [(r, c(Suc 0 \<mapsto> [q], 2 \<mapsto> p))])"
proof -
  have not_space: "\<And>x. is_space x \<Longrightarrow> x \<noteq> CHR ''(''"
    by (auto simp: is_space_def)
  have quote: "\<And>s c. matches (Seq (Group (Suc 0) (Class is_quote)) (Seq (Lit ''../pkg/'')
            (Seq (Group 2 (Plus (Class not_quote))) (Seq (Backref (Suc 0)) (Lit '')''))))) (s, c) =
     (case st_quote2 s of None \<Rightarrow> []
      | Some (q, p, r) \<Rightarrow> [(r, c(Suc 0 \<mapsto> [q], 2 \<mapsto> p))])"
    by (simp add: Seq_Group_Class matches_Seq_Lit path_matches st_quote2_def
          split: list.splits option.splits)
  have paren: "\<And>s c. matches (Seq (Star (Class is_space)) (Seq (Lit ''('')
          (Seq (Group (Suc 0) (Class is_quote)) (Seq (Lit ''../pkg/'')
            (Seq (Group 2 (Plus (Class not_quote))) (Seq (Backref (Suc 0)) (Lit '')''))))))) (s, c) =
     (case strip_prefix ''('' (dropWhile is_space s) of None \<Rightarrow> []
      | Some s2 \<Rightarrow> (case st_quote2 s2 of None \<Rightarrow> []
         | Some (q, p, r) \<Rightarrow> [(r, c(Suc 0 \<mapsto> [q], 2 \<mapsto> p))]))"
    apply (subst Seq_Star_Class_det)
     apply (simp add: matches_Seq_Lit strip_prefix_Cons not_space)
    apply (simp add: matches_Seq_Lit quote split: option.splits)
    done
  show ?thesis
    unfolding rel_pattern2_def seqs.simps
    by (simp add: matches_Seq_Lit paren rel2_parse_def split: option.splits)
qed

lemma drop_reps_pkg: "drop_reps ''../'' (CHR ''p'' # t) = CHR ''p'' # t"
  by (rule drop_reps_None) (simp add: strip_prefix_def)

lemma st_quote2_imp: "st_quote2 s = Some x \<Longrightarrow> st_quote s = Some x"
proof -
  assume a: "st_quote2 s = Some x"
  then obtain q t t' where s: "s = q # t" "is_quote q" "strip_prefix ''../pkg/'' t = Some t'"
    and x: "map_option (Pair q) (st_path q t') = Some x"
    by (auto simp: st_quote2_def split: list.splits if_splits option.splits)
  have "t = ''../pkg/'' @ t'" using s(3) by (rule strip_prefix_SomeD)
  then have "strip_prefix ''../'' t = Some (''pkg/'' @ t')" by (simp add: strip_prefix_def)
  then have "st_dots q t = st_path q t'"
    by (simp add: st_dots_def drop_reps_pkg st_pkg_def strip_prefix_def)
  then show ?thesis using s x by (simp add: st_quote_def)
qed

lemma rel2_parse_imp: "rel2_parse s = Some x \<Longrightarrow> rel1_parse s = Some x"
  by (auto simp: rel2_parse_def rel1_parse_def st_paren_def split: option.splits dest: st_quote2_imp)

lemma first_match_rel2_None: "rel1_parse s = None \<Longrightarrow> first_match rel_pattern2 s = None"
proof -
  assume "rel1_parse s = None"
  then have "rel2_parse s = None" using rel2_parse_imp[of s] by (cases "rel2_parse s") auto
  then show ?thesis by (simp add: first_match_def rel2_matches)
qed

lemma quiet_fixed2: "quiet s \<Longrightarrow> replace_all rel_pattern2 rel_callback2 s = s"
proof (induction s)
  case Nil
  show ?case by (subst replace_all.simps) (simp add: first_match_rel2_None rel1_parse_Nil)
next
  case (Cons x t)
  then have "rel1_parse (x # t) = None" "replace_all rel_pattern2 rel_callback2 t = t" by simp_all
  then show ?case by (subst replace_all.simps) (simp add: first_match_rel2_None)
qed

lemma rewrite_modified: "replace_all rel_pattern2 rel_callback2 (rw1 code) = rw1 code"
  by (rule quiet_fixed2) (rule quiet_rw1)

lemma rewriteWasmImports_renderChunk_eq:
  "rewriteWasmImports_renderChunk code = (if rw1 code \<noteq> code then Some (rw1 code) else None)"
  using rewrite_modified[of code]
  by (simp add: rewriteWasmImports_renderChunk_def Let_def rw1_def)

lemma apply_rewriteWasmImports: "apply_hook rewriteWasmImports_renderChunk code = rw1 code"
  by (simp add: apply_hook_def rewriteWasmImports_renderChunk_eq)




lemma getInitWasm_cached:
  assumes "wasmModuleExports s = Some c" "default_fn c = JSFunction f"
  shows "getInitWasm w s =
           ((case invoke w f (trace s) of Inl e \<Rightarrow> Thrown e | Inr v \<Rightarrow> Returned v),
            s\<lparr>trace := trace s @ [CallEv f]\<rparr>)"
  using assms
  by (simp add: getInitWasm_def getInitWasm_start_def getInitWasm_finish_def split: sum.splits)

lemma loaded_state_eq:
  "loaded_state = \<lparr> wasmModuleExports = Some (extract_exports hello_module),
                    trace = [ImportEv, ChecksEv, CallEv 0] \<rparr>"
  by (simp add: loaded_state_def getInitWasm_def getInitWasm_start_def getInitWasm_resume_def
      getInitWasm_finish_def demo_world_def initial_state_def hello_module_def required_exports_def
      has_property_def get_property_def extract_exports_def counting_invoke_def Let_def)

lemma repeat_cached:
  assumes "wasmModuleExports s = Some c" "default_fn c = JSFunction f"
  shows "wasmModuleExports (repeat_getInitWasm w n s) = Some c
       \<and> calls_of f (repeat_getInitWasm w n s) = calls_of f s + n
       \<and> imports_run (repeat_getInitWasm w n s) = imports_run s
       \<and> checks_run (repeat_getInitWasm w n s) = checks_run s"
  using assms
proof (induction n arbitrary: s)
  case 0
  then show ?case by simp
next
  case (Suc n)
  let ?s' = "s\<lparr>trace := trace s @ [CallEv f]\<rparr>"
  have s': "snd (getInitWasm w s) = ?s'" using Suc.prems by (simp add: getInitWasm_cached)
  have "wasmModuleExports ?s' = Some c" using Suc.prems by simp
  from Suc.IH[OF this Suc.prems(2)] show ?case
    by (simp add: s' calls_of_def imports_run_def checks_run_def)
qed

lemma first_non_function_None:
  "first_missing_export m ks = None \<Longrightarrow> first_non_function m ks = None"
  by (induction ks) (auto split: if_splits)

lemma getInitWasm_resume_ok:
  assumes "import_result w = Inr m" "typeof m = ''object''" "m \<noteq> JSNull"
    "first_missing_export m required_exports = None"
  shows "getInitWasm_resume w s =
           getInitWasm_finish w (s\<lparr>trace := trace s @ [ChecksEv],
                                   wasmModuleExports := Some (extract_exports m)\<rparr>)"
  using assms by (simp add: getInitWasm_resume_def Let_def first_non_function_None)


lemma getInitWasm_first:
  assumes "wasmModuleExports s = None" "import_result w = Inr m" "typeof m = ''object''" "m \<noteq> JSNull"
    "first_missing_export m required_exports = None" "default_fn (extract_exports m) = JSFunction f"
  shows "snd (getInitWasm w s) =
           s\<lparr>trace := trace s @ [ImportEv, ChecksEv, CallEv f],
              wasmModuleExports := Some (extract_exports m)\<rparr>"
  using assms
  by (simp add: getInitWasm_def getInitWasm_start_def getInitWasm_resume_ok getInitWasm_finish_def
      split: sum.splits)

lemma hello_module_ok:
  "typeof hello_module = ''object'' \<and> hello_module \<noteq> JSNull
   \<and> first_missing_export hello_module required_exports = None
   \<and> default_fn (extract_exports hello_module) = JSFunction 0"
  by (simp add: hello_module_def required_exports_def has_property_def get_property_def
      extract_exports_def)








lemma push_non_functions_set:
  "set (push_non_functions c ms acc) =
     set acc \<union> {k @ '' (function)'' | k member. (k, member) \<in> set ms \<and> typeof (member c) \<noteq> ''function''}"
proof (induction ms arbitrary: acc)
  case Nil
  show ?case by simp
next
  case (Cons a ms)
  obtain k member where a: "a = (k, member)" by (cases a)
  show ?case unfolding a by (simp add: Cons) blast
qed

lemma memory_label_not_function_label: "''memory (WebAssembly.Memory)'' \<noteq> k @ '' (function)''"
proof
  assume "''memory (WebAssembly.Memory)'' = k @ '' (function)''"
  then have "take 2 (rev ''memory (WebAssembly.Memory)'') = take 2 (rev (k @ '' (function)''))"
    by (simp only:)
  then show False by simp
qed

lemma function_members_names:
  "(k, member) \<in> set function_members \<Longrightarrow> (k', member') \<in> set function_members \<Longrightarrow>
   k @ '' (function)'' = k' @ '' (function)'' \<Longrightarrow> member = member'"
  by (auto simp: function_members_def)

lemma missing_exports_memory:
  "''memory (WebAssembly.Memory)'' \<in> set (missing_exports cache ex)
     \<longleftrightarrow> \<not> instanceof_Memory (get_property ex ''memory'')"
proof -
  have t: "instanceof_Memory (get_property ex ''memory'') \<Longrightarrow> truthy (get_property ex ''memory'')"
    by (cases "get_property ex ''memory''") simp_all
  show ?thesis
  proof (cases cache)
    case None
    then show ?thesis using t by (auto simp: missing_exports_def Let_def)
  next
    case (Some c)
    then show ?thesis using t memory_label_not_function_label
      by (auto simp: missing_exports_def Let_def push_non_functions_set)
  qed
qed

lemma missing_exports_null:
  "''module exports (wasmModuleExports is null)'' \<in> set (missing_exports None ex)"
  by (simp add: missing_exports_def Let_def)

lemma missing_exports_member:
  assumes "(k, member) \<in> set function_members"
  shows "k @ '' (function)'' \<in> set (missing_exports (Some c) ex) \<longleftrightarrow> typeof (member c) \<noteq> ''function''"
proof
  assume "k @ '' (function)'' \<in> set (missing_exports (Some c) ex)"
  then have "k @ '' (function)'' \<in> {k @ '' (function)'' | k member. (k, member) \<in> set function_members \<and> typeof (member c) \<noteq> ''function''}"
    using memory_label_not_function_label[of k]
    by (auto simp: missing_exports_def Let_def push_non_functions_set split: if_splits)
  then obtain k' member' where "(k', member') \<in> set function_members"
    "typeof (member' c) \<noteq> ''function''" "k @ '' (function)'' = k' @ '' (function)''" by blast
  then show "typeof (member c) \<noteq> ''function''" using function_members_names[OF assms] by blast
next
  assume "typeof (member c) \<noteq> ''function''"
  then show "k @ '' (function)'' \<in> set (missing_exports (Some c) ex)"
    using assms by (auto simp: missing_exports_def Let_def push_non_functions_set)
qed

lemma validateHelloModule_checked:
  assumes "validateWasmModule ex" "typeof ex = ''object''" "ex \<noteq> JSNull"
  shows "validateHelloModule validateWasmModule s ex =
     (if missing_exports (wasmModuleExports s) ex \<noteq> []
      then Thrown (missing_message (missing_exports (wasmModuleExports s) ex) (object_keys ex))
      else Returned (map_option (\<lambda>c. \<lparr> memory = get_property ex ''memory'',
                        hello_wasm_init = wasm_init c,
                        hello_get_counter = get_counter c,
                        hello_increment_counter = increment_counter c,
                        hello_get_message = get_message c,
                        hello_set_message = set_message c,
                        hello_get_fave_car = get_fave_car c,
                        hello_set_fave_car = set_fave_car c,
                        hello_get_fave_team = get_fave_team c,
                        hello_set_fave_team = set_fave_team c,
                        hello_get_decimal = get_decimal c,
                        hello_set_decimal = set_decimal c \<rparr>) (wasmModuleExports s)))"
proof (cases "missing_exports (wasmModuleExports s) ex = []")
  case False
  then show ?thesis using assms by (simp add: validateHelloModule_def Let_def)
next
  case True
  then have "''memory (WebAssembly.Memory)'' \<notin> set (missing_exports (wasmModuleExports s) ex)" by simp
  then have "instanceof_Memory (get_property ex ''memory'')" by (simp add: missing_exports_memory)
  then show ?thesis using assms True
    by (simp add: validateHelloModule_def Let_def split: option.splits)
qed

lemma collect_missing_filter:
  "collect_missing content expected acc =
     acc @ filter (\<lambda>e. \<not> regex_test (export_pattern e) content) expected"
  by (induction expected arbitrary: acc) simp_all

lemma astar_missing:
  "filter (\<lambda>e. \<not> regex_test (export_pattern e) astar_glue)
     [''wasm_init'', ''tick'', ''key_down'', ''key_up'', ''mouse_move'']
   = [''key_down'', ''key_up'', ''mouse_move'']"
  by code_simp

lemma unregistered_skipped:
  assumes "map_of expectedExports moduleName = None" "moduleName \<notin> set object_prototype_keys"
  shows "validateWasmModuleExports content filePath moduleName = Inr ()"
  using assms by (simp add: validateWasmModuleExports_def lookup_property_def)

lemma ws_lit_matches:
  assumes "\<not> is_space a"
  shows "matches (Seq (Star (Class is_space)) (Seq (Lit (a # l)) K)) (s, c) =
     (case ws_lit (a # l) s of None \<Rightarrow> [] | Some s' \<Rightarrow> matches K (s', c))"
proof -
  have "matches (Seq (Star (Class is_space)) (Seq (Lit (a # l)) K)) (s, c) =
          matches (Seq (Lit (a # l)) K) (dropWhile is_space s, c)"
    by (rule Seq_Star_Class_det) (use assms in \<open>auto simp: matches_Seq_Lit strip_prefix_Cons\<close>)
  then show ?thesis by (simp add: matches_Seq_Lit ws_lit_def)
qed

lemma ws_lit_matches_last:
  assumes "\<not> is_space a"
  shows "matches (Seq (Star (Class is_space)) (Lit (a # l))) (s, c) =
     (case ws_lit (a # l) s of None \<Rightarrow> [] | Some s' \<Rightarrow> [(s', c)])"
proof -
  have "matches (Seq (Star (Class is_space)) (Lit (a # l))) (s, c) =
          matches (Lit (a # l)) (dropWhile is_space s, c)"
    by (rule Seq_Star_Class_det) (use assms in \<open>auto simp: matches_Lit strip_prefix_Cons\<close>)
  then show ?thesis by (simp add: matches_Lit ws_lit_def)
qed

lemma path_backref:
  assumes "c (Suc 0) = Some [q]" "is_quote q" "n \<noteq> Suc 0"
  shows "matches (Seq (Group n (Plus (Class not_quote))) (Seq (Backref (Suc 0)) K)) (s, c) =
     (case s of [] \<Rightarrow> []
      | x # t \<Rightarrow> if not_quote x
          then (case strip_prefix [q] (dropWhile not_quote s) of None \<Rightarrow> []
                | Some s' \<Rightarrow> matches K (s', c(n \<mapsto> takeWhile not_quote s)))
          else [])"
proof -
  have fail: "\<And>x t m. not_quote x \<Longrightarrow>
      matches (Seq (Backref (Suc 0)) K) (x # t, c(n \<mapsto> m)) = []"
    using assms by (simp add: Seq_Backref strip_prefix_Cons nq_neq)
  show ?thesis
    apply (subst Seq_Group_Plus_Class_det)
     apply (rule fail, assumption)
    using assms by (simp add: Seq_Backref split: list.splits option.splits)
qed

lemma not_space_simps:
  "\<not> is_space (CHR ''('')" "\<not> is_space (CHR ''='')" "\<not> is_space (CHR ''i'')"
  "\<not> is_space (CHR '','')" "\<not> is_space (CHR ''['')" "\<not> is_space (CHR '')'')"
  by (simp_all add: is_space_def)

lemma pre_path_matches:
  assumes "c (Suc 0) = Some [q]" "is_quote q"
  shows "matches (Seq (Group 2 (Plus (Class not_quote))) (Seq (Backref (Suc 0))
            (Seq (Lit '')'') (Seq (Star (Class is_space)) (Seq (Lit '','') T))))) (s, c) =
     (case pre_path q s of None \<Rightarrow> [] | Some (p, s') \<Rightarrow> matches T (s', c(2 \<mapsto> p)))"
  using assms
  by (simp add: path_backref matches_Seq_Lit ws_lit_matches not_space_simps pre_path_def
      split: list.splits option.splits)

lemma pre_quote_matches:
  "matches (Seq (Group (Suc 0) (Class is_quote)) (Seq (Lit ''/pkg/'')
       (Seq (Group 2 (Plus (Class not_quote))) (Seq (Backref (Suc 0))
            (Seq (Lit '')'') (Seq (Star (Class is_space)) (Seq (Lit '','') T))))))) (s, c) =
     (case pre_quote s of None \<Rightarrow> []
      | Some (q, p, s') \<Rightarrow> matches T (s', c(Suc 0 \<mapsto> [q], 2 \<mapsto> p)))"
  by (simp add: Seq_Group_Class matches_Seq_Lit pre_path_matches pre_quote_def
      split: list.splits option.splits)

lemma pre_head_matches:
  "matches (Seq (Lit ''__vitePreload'') (Seq (Star (Class is_space)) (Seq (Lit ''('')
     (Seq (Star (Class is_space)) (Seq (Lit ''()'') (Seq (Star (Class is_space)) (Seq (Lit ''=>'')
     (Seq (Star (Class is_space)) (Seq (Lit ''import'') (Seq (Star (Class is_space)) (Seq (Lit ''('')
     (Seq (Group (Suc 0) (Class is_quote)) (Seq (Lit ''/pkg/'')
       (Seq (Group 2 (Plus (Class not_quote))) (Seq (Backref (Suc 0))
            (Seq (Lit '')'') (Seq (Star (Class is_space)) (Seq (Lit '','') T)))))))))))))))))) (s, c) =
     (case pre_head s of None \<Rightarrow> []
      | Some (q, p, s') \<Rightarrow> matches T (s', c(Suc 0 \<mapsto> [q], 2 \<mapsto> p)))"
  by (simp add: matches_Seq_Lit ws_lit_matches not_space_simps pre_quote_matches pre_head_def
      split: option.splits)

lemma tail1_matches:
  "matches (Seq (Star (Class is_space)) (Seq (Lit ''[]'') (Seq (Star (Class is_space)) (Lit '')'')))) (s, c) =
     (case tail1_parse s of None \<Rightarrow> [] | Some r \<Rightarrow> [(r, c)])"
  by (simp add: ws_lit_matches ws_lit_matches_last not_space_simps tail1_parse_def
      split: option.splits)

lemma pre1_matches:
  "matches pre_pattern1 (s, c) =
     (case pre1_parse s of None \<Rightarrow> []
      | Some (q, p, r) \<Rightarrow> [(r, c(Suc 0 \<mapsto> [q], 2 \<mapsto> p))])"
  unfolding pre_pattern1_def seqs.simps One_nat_def
  by (simp add: pre_head_matches tail1_matches pre1_parse_def split: option.splits)

lemma space_not_rparen: "is_space x \<Longrightarrow> not_rparen x"
  by (auto simp: is_space_def not_rparen_def)

lemma plus_rparen_matches:
  "matches (Seq (Plus (Class not_rparen)) (Lit '')'')) (s, c) =
     (case tail2_parse s of None \<Rightarrow> [] | Some r \<Rightarrow> [(r, c)])"
proof -
  have fail: "\<And>x t. not_rparen x \<Longrightarrow> matches (Lit '')'') (x # t, c) = []"
    by (simp add: matches_Lit strip_prefix_Cons not_rparen_def)
  show ?thesis
    apply (subst Seq_Plus_Class_det)
     apply (rule fail, assumption)
    apply (simp add: matches_Lit tail2_parse_def split: list.splits)
    done
qed

lemma tail2_parse_space: "is_space x \<Longrightarrow> tail2_parse (x # t) = None \<or> tail2_parse t = None \<or> tail2_parse t = tail2_parse (x # t)"
  by (cases t) (auto simp: tail2_parse_def space_not_rparen)

lemma tail2_parse_drop_space:
  "is_space x \<Longrightarrow> tail2_parse t = Some r \<Longrightarrow> tail2_parse (x # t) = Some r"
  by (cases t) (auto simp: tail2_parse_def space_not_rparen split: if_splits)

lemma star_space_results:
  "st \<in> set (matches (Star (Class is_space)) (s, c)) \<Longrightarrow>
     snd st = c \<and> (tail2_parse (fst st) = None \<or> tail2_parse (fst st) = tail2_parse s)"
proof (induction s)
  case Nil
  then show ?case by (simp add: matches_Star_Class_Nil)
next
  case (Cons x t)
  show ?case
  proof (cases "is_space x")
    case True
    then have "st \<in> set (matches (Star (Class is_space)) (t, c)) \<or> st = (x # t, c)"
      using Cons.prems by (auto simp: matches_Star_Class_Cons)
    then show ?thesis
    proof
      assume "st \<in> set (matches (Star (Class is_space)) (t, c))"
      then have a: "snd st = c" "tail2_parse (fst st) = None \<or> tail2_parse (fst st) = tail2_parse t"
        using Cons.IH by simp_all
      show ?thesis
      proof (cases "tail2_parse (fst st)")
        case None
        then show ?thesis using a by simp
      next
        case (Some r)
        then have "tail2_parse t = Some r" using a by simp
        then have "tail2_parse (x # t) = Some r" using True by (rule tail2_parse_drop_space[rotated])
        then show ?thesis using a Some by simp
      qed
    next
      assume "st = (x # t, c)"
      then show ?thesis by simp
    qed
  next
    case False
    then show ?thesis using Cons.prems by (simp add: matches_Star_Class_Cons)
  qed
qed

lemma star_space_last: "(s, c) \<in> set (matches (Star (Class is_space)) (s, c))"
  by (cases s) (simp_all add: matches_Star_Class_Nil matches_Star_Class_Cons)

lemma tail2_results:
  "set (matches (Seq (Star (Class is_space)) (Seq (Plus (Class not_rparen)) (Lit '')''))) (s, c)) =
     (case tail2_parse s of None \<Rightarrow> {} | Some r \<Rightarrow> {(r, c)})"
proof -
  let ?K = "Seq (Plus (Class not_rparen)) (Lit '')'')"
  have m: "matches (Seq (Star (Class is_space)) ?K) (s, c) =
             concat (map (matches ?K) (matches (Star (Class is_space)) (s, c)))"
    by (simp only: matches.simps(3))
  have sub: "set (matches (Seq (Star (Class is_space)) ?K) (s, c)) \<subseteq>
               (case tail2_parse s of None \<Rightarrow> {} | Some r \<Rightarrow> {(r, c)})"
  proof
    fix y assume "y \<in> set (matches (Seq (Star (Class is_space)) ?K) (s, c))"
    then obtain st where st: "st \<in> set (matches (Star (Class is_space)) (s, c))" "y \<in> set (matches ?K st)"
      unfolding m by auto
    from star_space_results[OF st(1)]
    have a: "snd st = c" "tail2_parse (fst st) = None \<or> tail2_parse (fst st) = tail2_parse s" by simp_all
    have "matches ?K st = (case tail2_parse (fst st) of None \<Rightarrow> [] | Some r \<Rightarrow> [(r, c)])"
      using plus_rparen_matches[of "fst st" c] a(1) by (cases st) simp
    then have "y \<in> set (case tail2_parse (fst st) of None \<Rightarrow> [] | Some r \<Rightarrow> [(r, c)])"
      using st(2) by simp
    then obtain r where r: "tail2_parse (fst st) = Some r" "y = (r, c)"
      by (cases "tail2_parse (fst st)") auto
    then have "tail2_parse s = Some r" using a(2) by auto
    then show "y \<in> (case tail2_parse s of None \<Rightarrow> {} | Some r \<Rightarrow> {(r, c)})"
      using r(2) by simp
  qed
  have sup: "(case tail2_parse s of None \<Rightarrow> {} | Some r \<Rightarrow> {(r, c)}) \<subseteq>
               set (matches (Seq (Star (Class is_space)) ?K) (s, c))"
  proof (cases "tail2_parse s")
    case None
    then show ?thesis by simp
  next
    case (Some r)
    have "(r, c) \<in> set (matches ?K (s, c))" using Some by (simp add: plus_rparen_matches)
    then have "(r, c) \<in> set (matches (Seq (Star (Class is_space)) ?K) (s, c))"
      unfolding m using star_space_last[of s c] by auto
    then show ?thesis using Some by simp
  qed
  show ?thesis using sub sup by blast
qed

lemma first_of_singleton_set:
  "set xs = (case o' of None \<Rightarrow> {} | Some y \<Rightarrow> {y}) \<Longrightarrow>
   (case xs of [] \<Rightarrow> None | x # _ \<Rightarrow> Some x) = o'"
  by (cases xs; cases o') auto

lemma first_match_pre1:
  "first_match pre_pattern1 s =
     (case pre1_parse s of None \<Rightarrow> None
      | Some (q, p, r) \<Rightarrow> Some (r, [Suc 0 \<mapsto> [q], 2 \<mapsto> p]))"
  by (simp add: first_match_def pre1_matches split: option.splits)

lemma first_match_pre2:
  "first_match pre_pattern2 s =
     (case pre2_parse s of None \<Rightarrow> None
      | Some (q, p, r) \<Rightarrow> Some (r, [Suc 0 \<mapsto> [q], 2 \<mapsto> p]))"
proof (cases "pre_head s")
  case None
  then show ?thesis
    unfolding pre_pattern2_def seqs.simps One_nat_def
    by (simp add: first_match_def pre_head_matches pre2_parse_def)
next
  case (Some a)
  obtain q p s' where a: "a = (q, p, s')" by (cases a)
  let ?c = "[Suc 0 \<mapsto> [q], 2 \<mapsto> p]"
  have m: "matches pre_pattern2 (s, Map.empty) =
        matches (Seq (Star (Class is_space)) (Seq (Plus (Class not_rparen)) (Lit '')''))) (s', ?c)"
    unfolding pre_pattern2_def seqs.simps One_nat_def
    using Some a by (simp add: pre_head_matches)
  have "set (matches pre_pattern2 (s, Map.empty)) =
          (case map_option (\<lambda>r. (r, ?c)) (tail2_parse s') of None \<Rightarrow> {} | Some y \<Rightarrow> {y})"
    unfolding m by (simp add: tail2_results split: option.splits)
  then have "first_match pre_pattern2 s = map_option (\<lambda>r. (r, ?c)) (tail2_parse s')"
    unfolding first_match_def by (rule first_of_singleton_set)
  then show ?thesis using Some a by (simp add: pre2_parse_def split: option.splits)
qed







lemma pre_head_Nil: "pre_head [] = None"
  by (simp add: pre_head_def strip_prefix_def)

lemma first_match_pre_None:
  "pre_head s = None \<Longrightarrow> first_match pre_pattern1 s = None \<and> first_match pre_pattern2 s = None"
  by (simp add: first_match_pre1 first_match_pre2 pre1_parse_def pre2_parse_def)






















lemma first_match_Nil_pre:
  "first_match pre_pattern1 [] = None" "first_match pre_pattern2 [] = None"
  using first_match_pre_None[OF pre_head_Nil] by simp_all



section \<open>The claims\<close>

text \<open>
  Claim C1, as the code has it. When the imported pre-check accepts the argument and the
  argument is an object, \<open>validateHelloModule\<close> gathers every check that fails into one list
  and throws one error that carries the whole list: the \<open>memory\<close> member of the bag, and, read
  from the module variable \<open>wasmModuleExports\<close> and not from the bag, either the entry for a
  \<open>null\<close> cache or one entry for each of the eleven cached members that is not a function. An
  entry is in the list exactly when its check fails. The bag's own \<open>increment_counter\<close> is
  never read.
\<close>

theorem validateHelloModule_collects_checks:
  assumes "validateWasmModule ex" "typeof ex = ''object''" "ex \<noteq> JSNull"
  shows "(validateHelloModule validateWasmModule s ex =
            (if missing_exports (wasmModuleExports s) ex = []
             then Returned (map_option (\<lambda>c. \<lparr> memory = get_property ex ''memory'',
                        hello_wasm_init = wasm_init c,
                        hello_get_counter = get_counter c,
                        hello_increment_counter = increment_counter c,
                        hello_get_message = get_message c,
                        hello_set_message = set_message c,
                        hello_get_fave_car = get_fave_car c,
                        hello_set_fave_car = set_fave_car c,
                        hello_get_fave_team = get_fave_team c,
                        hello_set_fave_team = set_fave_team c,
                        hello_get_decimal = get_decimal c,
                        hello_set_decimal = set_decimal c \<rparr>) (wasmModuleExports s))
             else Thrown (missing_message (missing_exports (wasmModuleExports s) ex) (object_keys ex))))
       \<and> ((''memory (WebAssembly.Memory)'' \<in> set (missing_exports (wasmModuleExports s) ex))
            = (\<not> instanceof_Memory (get_property ex ''memory'')))
       \<and> (wasmModuleExports s = None \<longrightarrow>
            ''module exports (wasmModuleExports is null)'' \<in> set (missing_exports (wasmModuleExports s) ex))
       \<and> (\<forall>c k member. wasmModuleExports s = Some c \<and> (k, member) \<in> set function_members \<longrightarrow>
            (k @ '' (function)'' \<in> set (missing_exports (wasmModuleExports s) ex))
              = (typeof (member c) \<noteq> ''function''))"
  using assms
  by (auto simp: validateHelloModule_checked missing_exports_memory missing_exports_null
      missing_exports_member)

theorem validateHelloModule_collects_checks_witness:
  "always True (JSObject []) \<and> typeof (JSObject []) = ''object'' \<and> JSObject [] \<noteq> JSNull
   \<and> validateHelloModule (always True) empty_cache_state (JSObject []) =
       Thrown (missing_message
         [''memory (WebAssembly.Memory)'', ''wasm_init (function)'', ''get_counter (function)'',
          ''increment_counter (function)'', ''get_message (function)'', ''set_message (function)'',
          ''get_fave_car (function)'', ''set_fave_car (function)'', ''get_fave_team (function)'',
          ''set_fave_team (function)'', ''get_decimal (function)'', ''set_decimal (function)''] [])
   \<and> validateHelloModule (always True) initial_state (JSObject []) =
       Thrown (missing_message
         [''memory (WebAssembly.Memory)'', ''module exports (wasmModuleExports is null)''] [])"
proof -
  have h: "always True (JSObject [])" "typeof (JSObject []) = ''object''" "JSObject [] \<noteq> JSNull"
    by (simp_all add: always_def)
  have m1: "missing_exports (wasmModuleExports empty_cache_state) (JSObject []) =
         [''memory (WebAssembly.Memory)'', ''wasm_init (function)'', ''get_counter (function)'',
          ''increment_counter (function)'', ''get_message (function)'', ''set_message (function)'',
          ''get_fave_car (function)'', ''set_fave_car (function)'', ''get_fave_team (function)'',
          ''set_fave_team (function)'', ''get_decimal (function)'', ''set_decimal (function)'']"
    by (simp add: empty_cache_state_def missing_exports_def function_members_def extract_exports_def
        get_property_def Let_def)
  have m2: "missing_exports (wasmModuleExports initial_state) (JSObject []) =
         [''memory (WebAssembly.Memory)'', ''module exports (wasmModuleExports is null)'']"
    by (simp add: initial_state_def missing_exports_def get_property_def Let_def)
  have k: "object_keys (JSObject []) = []" by (simp add: object_keys_def)
  show ?thesis
    using validateHelloModule_collects_checks[of "always True" "JSObject []" empty_cache_state, OF h]
          validateHelloModule_collects_checks[of "always True" "JSObject []" initial_state, OF h] h
    by (simp add: m1 m2 k)
qed

text \<open>
  The claim as the specification states it fails: for a bag with neither \<open>memory\<close> nor
  \<open>increment_counter\<close>, after the loader has cached the module's exports, the failure names
  \<open>memory\<close> alone when the pre-check accepts the bag, and there is no failure report at all
  (the result is \<open>null\<close>) when the pre-check rejects it.
\<close>

theorem validateHelloModule_ignores_bag_functions:
  "validateHelloModule (always True) loaded_state (JSObject []) =
     Thrown (missing_message [''memory (WebAssembly.Memory)''] [])
   \<and> validateHelloModule (always False) loaded_state (JSObject []) = Returned None"
  by (simp add: validateHelloModule_def always_def loaded_state_eq missing_exports_def
      function_members_def extract_exports_def hello_module_def get_property_def object_keys_def
      Let_def)




text \<open>
  Claim C3, as the code has it. Applying the relative-import rewriting of
  \<open>rewriteWasmImports\<close> to its own output changes nothing, for every chunk text: the
  second application reports no change (it returns \<open>null\<close>), so imports that are already
  absolute are left untouched. (The removal of preload wrappers is not idempotent on every
  text; see the counterexample.)
\<close>

theorem rewriteWasmImports_idempotent:
  "apply_hook rewriteWasmImports_renderChunk (apply_hook rewriteWasmImports_renderChunk code) =
     apply_hook rewriteWasmImports_renderChunk code \<and>
   rewriteWasmImports_renderChunk (apply_hook rewriteWasmImports_renderChunk code) = None"
  by (simp add: apply_rewriteWasmImports rewriteWasmImports_renderChunk_eq rw1_idem)

text \<open>
  The claim as the specification states it fails for the Rewriter as a whole: on a chunk
  with a preload wrapper inside a preload wrapper the first application of the two hooks
  strips one wrapper and the second application strips the other.
\<close>

theorem renderChunk_pipeline_not_idempotent:
  "renderChunk_pipeline nested_preload_chunk =
     ''__vitePreload(()=>import('' @ [dquote] @ ''/pkg/a'' @ [dquote] @ ''),[])''
   \<and> renderChunk_pipeline (renderChunk_pipeline nested_preload_chunk) =
     ''import('' @ [dquote] @ ''/pkg/a'' @ [dquote] @ '')''"
  unfolding nested_preload_chunk_def by code_simp




text \<open>
  Claim C5, as the code has it. Once the exports are cached, a call evaluates no import and
  runs no export check and leaves the cache as it is; it invokes the cached initializer
  again and returns what that invocation returns (or throws what it throws), not a stored
  handle.
\<close>

theorem getInitWasm_cached_call:
  assumes "wasmModuleExports s = Some c" "default_fn c = JSFunction f"
  shows "fst (getInitWasm w s) = (case invoke w f (trace s) of Inl e \<Rightarrow> Thrown e | Inr v \<Rightarrow> Returned v)
       \<and> snd (getInitWasm w s) = s\<lparr>trace := trace s @ [CallEv f]\<rparr>
       \<and> wasmModuleExports (snd (getInitWasm w s)) = Some c
       \<and> imports_run (snd (getInitWasm w s)) = imports_run s
       \<and> checks_run (snd (getInitWasm w s)) = checks_run s"
  using assms by (simp add: getInitWasm_cached imports_run_def checks_run_def)

theorem getInitWasm_cached_call_witness:
  "wasmModuleExports loaded_state = Some (extract_exports hello_module) \<and>
   default_fn (extract_exports hello_module) = JSFunction 0 \<and>
   fst (getInitWasm demo_world loaded_state) = Returned (JSNumber 3) \<and>
   imports_run (snd (getInitWasm demo_world loaded_state)) = 1"
proof -
  have a: "wasmModuleExports loaded_state = Some (extract_exports hello_module)"
    by (simp add: loaded_state_eq)
  have b: "default_fn (extract_exports hello_module) = JSFunction 0"
    by (simp add: extract_exports_def hello_module_def get_property_def)
  show ?thesis
    using getInitWasm_cached_call[OF a b, of demo_world] a b
    by (simp add: loaded_state_eq demo_world_def counting_invoke_def imports_run_def)
qed

text \<open>
  The claim as the specification states it fails where it says the memoized handle is
  returned: with an initializer whose result changes from one invocation to the next, the
  second call returns another value than the first.
\<close>

theorem getInitWasm_result_not_memoized:
  "fst (getInitWasm demo_world initial_state) = Returned (JSNumber 2) \<and>
   fst (getInitWasm demo_world (snd (getInitWasm demo_world initial_state))) = Returned (JSNumber 3)"
  by (simp add: getInitWasm_def getInitWasm_start_def getInitWasm_resume_def
      getInitWasm_finish_def demo_world_def initial_state_def hello_module_def required_exports_def
      has_property_def get_property_def extract_exports_def counting_invoke_def Let_def)



text \<open>
  Claim C7. For a module with an entry in \<open>expectedExports\<close>, every export name of the entry
  is looked for in the glue code with the export pattern; when all are found the function
  returns, and otherwise it throws one error whose message lists, in order, every name that
  was not found.
\<close>

theorem validateWasmModuleExports_names_all_missing:
  assumes "map_of expectedExports moduleName = Some expected"
  shows "validateWasmModuleExports content filePath moduleName =
     (if \<forall>e\<in>set expected. regex_test (export_pattern e) content then Inr ()
      else Inl (Error (''Module '' @ moduleName @ '' is missing required exports: '' @
                  join '', '' (filter (\<lambda>e. \<not> regex_test (export_pattern e) content) expected) @
                  ''. File: '' @ filePath)))"
  using assms
  by (auto simp: validateWasmModuleExports_def lookup_property_def collect_missing_filter Let_def
      filter_empty_conv)

theorem validateWasmModuleExports_names_all_missing_witness:
  "map_of expectedExports ''wasm_astar'' = Some [''wasm_init'', ''tick'', ''key_down'', ''key_up'', ''mouse_move'']
   \<and> validateWasmModuleExports astar_glue ''dist/pkg/wasm_astar/wasm_astar.js'' ''wasm_astar'' =
     Inl (Error ''Module wasm_astar is missing required exports: key_down, key_up, mouse_move. File: dist/pkg/wasm_astar/wasm_astar.js'')"
proof -
  have h: "map_of expectedExports ''wasm_astar'' = Some [''wasm_init'', ''tick'', ''key_down'', ''key_up'', ''mouse_move'']"
    by (simp add: expectedExports_def)
  have n: "\<not> (\<forall>e\<in>set [''wasm_init'', ''tick'', ''key_down'', ''key_up'', ''mouse_move''].
               regex_test (export_pattern e) astar_glue)"
  proof
    assume "\<forall>e\<in>set [''wasm_init'', ''tick'', ''key_down'', ''key_up'', ''mouse_move''].
               regex_test (export_pattern e) astar_glue"
    then have "filter (\<lambda>e. \<not> regex_test (export_pattern e) astar_glue)
        [''wasm_init'', ''tick'', ''key_down'', ''key_up'', ''mouse_move''] = []"
      by (simp only: filter_empty_conv not_not)
    then show False by (simp only: astar_missing list.distinct)
  qed
  show ?thesis
    using validateWasmModuleExports_names_all_missing[OF h, of astar_glue "''dist/pkg/wasm_astar/wasm_astar.js''"] h
    by (simp only: n astar_missing if_False) simp
qed

text \<open>
  Claim C8 does not hold of the code for every unregistered name: \<open>expectedExports\<close> is an
  object literal, so the name \<open>constructor\<close> (like every other member of \<open>Object.prototype\<close>)
  reads an inherited, truthy value, the early return is not taken, and iterating that value
  throws a \<open>TypeError\<close>.
\<close>

theorem validateWasmModuleExports_constructor_throws:
  "validateWasmModuleExports content filePath ''constructor'' = Inl (TypeError ''expected is not iterable'')"
  by (simp add: validateWasmModuleExports_def lookup_property_def expectedExports_def
      object_prototype_keys_def)




text \<open>
  Claim C10. With the exports cached, \<open>n\<close> calls invoke the cached initializer \<open>n\<close> times
  and evaluate no import and run no export check; starting from an empty cache with a module
  that passes the checks, \<open>n + 1\<close> calls invoke it \<open>n + 1\<close> times, with one import and one pass
  through the checks.
\<close>

theorem getInitWasm_initializer_every_call:
  "(wasmModuleExports s = Some c \<and> default_fn c = JSFunction f \<longrightarrow>
      calls_of f (repeat_getInitWasm w n s) = calls_of f s + n
      \<and> imports_run (repeat_getInitWasm w n s) = imports_run s
      \<and> checks_run (repeat_getInitWasm w n s) = checks_run s)
   \<and> (wasmModuleExports s = None \<and> import_result w = Inr m \<and> typeof m = ''object'' \<and> m \<noteq> JSNull
        \<and> first_missing_export m required_exports = None
        \<and> default_fn (extract_exports m) = JSFunction f \<longrightarrow>
      calls_of f (repeat_getInitWasm w (Suc n) s) = calls_of f s + Suc n
      \<and> imports_run (repeat_getInitWasm w (Suc n) s) = imports_run s + 1
      \<and> checks_run (repeat_getInitWasm w (Suc n) s) = checks_run s + 1)"
proof (intro conjI impI)
  assume a: "wasmModuleExports s = Some c \<and> default_fn c = JSFunction f"
  then have r: "wasmModuleExports (repeat_getInitWasm w n s) = Some c
       \<and> calls_of f (repeat_getInitWasm w n s) = calls_of f s + n
       \<and> imports_run (repeat_getInitWasm w n s) = imports_run s
       \<and> checks_run (repeat_getInitWasm w n s) = checks_run s"
    using repeat_cached[of s c f w n] by simp
  show "calls_of f (repeat_getInitWasm w n s) = calls_of f s + n" using r by simp
  show "imports_run (repeat_getInitWasm w n s) = imports_run s" using r by simp
  show "checks_run (repeat_getInitWasm w n s) = checks_run s" using r by simp
next
  assume a: "wasmModuleExports s = None \<and> import_result w = Inr m \<and> typeof m = ''object'' \<and> m \<noteq> JSNull
        \<and> first_missing_export m required_exports = None
        \<and> default_fn (extract_exports m) = JSFunction f"
  let ?s1 = "s\<lparr>trace := trace s @ [ImportEv, ChecksEv, CallEv f],
              wasmModuleExports := Some (extract_exports m)\<rparr>"
  have s1: "snd (getInitWasm w s) = ?s1" using a by (simp add: getInitWasm_first)
  have c1: "wasmModuleExports ?s1 = Some (extract_exports m)" by simp
  have r: "wasmModuleExports (repeat_getInitWasm w n ?s1) = Some (extract_exports m)
       \<and> calls_of f (repeat_getInitWasm w n ?s1) = calls_of f ?s1 + n
       \<and> imports_run (repeat_getInitWasm w n ?s1) = imports_run ?s1
       \<and> checks_run (repeat_getInitWasm w n ?s1) = checks_run ?s1"
    using repeat_cached[OF c1, of f w n] a by simp
  show "calls_of f (repeat_getInitWasm w (Suc n) s) = calls_of f s + Suc n"
    using r by (simp add: s1 calls_of_def)
  show "imports_run (repeat_getInitWasm w (Suc n) s) = imports_run s + 1"
    using r by (simp add: s1 imports_run_def)
  show "checks_run (repeat_getInitWasm w (Suc n) s) = checks_run s + 1"
    using r by (simp add: s1 checks_run_def)
qed

theorem getInitWasm_initializer_every_call_witness:
  "calls_of 0 (repeat_getInitWasm demo_world 3 loaded_state) = 4
   \<and> imports_run (repeat_getInitWasm demo_world 3 loaded_state) = 1
   \<and> checks_run (repeat_getInitWasm demo_world 3 loaded_state) = 1
   \<and> calls_of 0 (repeat_getInitWasm demo_world 3 initial_state) = 3
   \<and> imports_run (repeat_getInitWasm demo_world 3 initial_state) = 1"
  using getInitWasm_initializer_every_call[of loaded_state "extract_exports hello_module" 0 demo_world 3 hello_module]
        getInitWasm_initializer_every_call[of initial_state "extract_exports hello_module" 0 demo_world 2 hello_module]
        hello_module_ok
  by (simp add: loaded_state_eq initial_state_def demo_world_def calls_of_def imports_run_def
      checks_run_def numeral_3_eq_3)

end
